theory Spec2Isabelle
  imports Complex_Main "HOL-Library.Word"
begin

unbundle bit_operations_syntax

section \<open>Machine types\<close>

text \<open>
  \<open>uint8_t\<close> is \<open>8 word\<close>, \<open>int16_t\<close> is \<open>16 word\<close> read with \<open>sint\<close>, and
  \<open>unsigned long\<close> (the type of \<open>micros()\<close> on the 32-bit targets of the library) is \<open>32 word\<close>.
  Array indices that the code derives from a checked range (strip, row, block) are \<open>nat\<close>.
\<close>

type_synonym u8 = "8 word"
type_synonym i16 = "16 word"
type_synonym usec = "32 word"

text \<open>
  A \<open>float\<close> is the \<open>real\<close> it denotes, and every product and quotient of the code is
  rounded to single precision by \<open>float32\<close>: to the nearest multiple of the unit in the
  last place, a tie to the even multiple. \<open>exponent_from\<close> finds the binary exponent of
  the value, from \<open>-126\<close> (the exponent of the subnormal numbers) up to \<open>127\<close>; the
  significand has 24 bits. Values of magnitude \<open>2 ^ 128\<close> and above, which overflow, do not
  occur in the code.
\<close>

definition round_even :: "real \<Rightarrow> int" where
  "round_even x =
     (let n = \<lfloor>x\<rfloor>; d = x - real_of_int n in
      if d < 1 / 2 then n else if 1 / 2 < d then n + 1 else if even n then n else n + 1)"

fun exponent_from :: "nat \<Rightarrow> int \<Rightarrow> real \<Rightarrow> int" where
  "exponent_from 0 e x = e"
| "exponent_from (Suc k) e x = (if 2 powi (e + 1) \<le> x then exponent_from k (e + 1) x else e)"

definition float32 :: "real \<Rightarrow> real" where
  "float32 x =
     (let e = exponent_from 253 (- 126) \<bar>x\<bar>; u = 2 powi (e - 23)
      in u * real_of_int (round_even (x / u)))"

section \<open>The address map (namespace Mackie)\<close>

abbreviation (input) Vendor :: "u8 list" where "Vendor \<equiv> [0x00, 0x00, 0x66]"
abbreviation (input) Header_Device :: nat where "Header_Device \<equiv> 3"
abbreviation (input) Header_Type :: nat where "Header_Type \<equiv> 4"
abbreviation (input) Header_Message :: nat where "Header_Message \<equiv> 5"
abbreviation (input) Device_Control :: u8 where "Device_Control \<equiv> 20"
abbreviation (input) Device_ControlXT :: u8 where "Device_ControlXT \<equiv> 21"
abbreviation (input) Type_Display :: u8 where "Type_Display \<equiv> 18"
abbreviation (input) Display_Header_Index :: nat where "Display_Header_Index \<equiv> 0"
abbreviation (input) Display_Header_Text :: nat where "Display_Header_Text \<equiv> 1"

abbreviation (input) Time_Digit :: u8 where "Time_Digit \<equiv> 64"
abbreviation (input) VPot_Single :: u8 where "VPot_Single \<equiv> 0"
abbreviation (input) VPot_Boost :: u8 where "VPot_Boost \<equiv> 1"
abbreviation (input) VPot_Bar :: u8 where "VPot_Bar \<equiv> 2"
abbreviation (input) VPot_Spread :: u8 where "VPot_Spread \<equiv> 3"
abbreviation (input) VPot_LED :: u8 where "VPot_LED \<equiv> 48"
abbreviation (input) VPot_Push :: u8 where "VPot_Push \<equiv> 32"
abbreviation (input) Button_Arm :: u8 where "Button_Arm \<equiv> 0"
abbreviation (input) Button_Solo :: u8 where "Button_Solo \<equiv> 8"
abbreviation (input) Button_Mute :: u8 where "Button_Mute \<equiv> 16"
abbreviation (input) Button_Select :: u8 where "Button_Select \<equiv> 24"
abbreviation (input) Fader_Touch :: u8 where "Fader_Touch \<equiv> 104"
abbreviation (input) Main_Touch :: u8 where "Main_Touch \<equiv> 112"

abbreviation (input) Bank_Previous :: u8 where "Bank_Previous \<equiv> 46"
abbreviation (input) Bank_Next :: u8 where "Bank_Next \<equiv> 47"
abbreviation (input) Bank_PreviousChannel :: u8 where "Bank_PreviousChannel \<equiv> 48"
abbreviation (input) Bank_NextChannel :: u8 where "Bank_NextChannel \<equiv> 49"
abbreviation (input) Bank_Flip :: u8 where "Bank_Flip \<equiv> 50"
abbreviation (input) Bank_Edit :: u8 where "Bank_Edit \<equiv> 51"

abbreviation (input) Modifier_Shift :: u8 where "Modifier_Shift \<equiv> 70"
abbreviation (input) Modifier_Option :: u8 where "Modifier_Option \<equiv> 71"
abbreviation (input) Modifier_Control :: u8 where "Modifier_Control \<equiv> 72"
abbreviation (input) Modifier_Alt :: u8 where "Modifier_Alt \<equiv> 73"

abbreviation (input) Automation_On :: u8 where "Automation_On \<equiv> 74"
abbreviation (input) Automation_Record :: u8 where "Automation_Record \<equiv> 75"
abbreviation (input) Automation_Snapshot :: u8 where "Automation_Snapshot \<equiv> 77"
abbreviation (input) Automation_Touch :: u8 where "Automation_Touch \<equiv> 78"

abbreviation (input) Utility_Undo :: u8 where "Utility_Undo \<equiv> 76"
abbreviation (input) Utility_Cancel :: u8 where "Utility_Cancel \<equiv> 80"
abbreviation (input) Utility_Enter :: u8 where "Utility_Enter \<equiv> 81"
abbreviation (input) Utility_Redo :: u8 where "Utility_Redo \<equiv> 79"
abbreviation (input) Utility_Marker :: u8 where "Utility_Marker \<equiv> 82"
abbreviation (input) Utility_Mixer :: u8 where "Utility_Mixer \<equiv> 83"

abbreviation (input) Marker_PreviousFrame :: u8 where "Marker_PreviousFrame \<equiv> 84"
abbreviation (input) Marker_NextFrame :: u8 where "Marker_NextFrame \<equiv> 85"
abbreviation (input) Marker_Loop :: u8 where "Marker_Loop \<equiv> 86"
abbreviation (input) Marker_PointIn :: u8 where "Marker_PointIn \<equiv> 87"
abbreviation (input) Marker_PointOut :: u8 where "Marker_PointOut \<equiv> 88"
abbreviation (input) Marker_Home :: u8 where "Marker_Home \<equiv> 89"
abbreviation (input) Marker_End :: u8 where "Marker_End \<equiv> 90"

abbreviation (input) Transport_Rewind :: u8 where "Transport_Rewind \<equiv> 91"
abbreviation (input) Transport_Forward :: u8 where "Transport_Forward \<equiv> 92"
abbreviation (input) Transport_Stop :: u8 where "Transport_Stop \<equiv> 93"
abbreviation (input) Transport_Play :: u8 where "Transport_Play \<equiv> 94"
abbreviation (input) Transport_Record :: u8 where "Transport_Record \<equiv> 95"

abbreviation (input) Navigation_Up :: u8 where "Navigation_Up \<equiv> 96"
abbreviation (input) Navigation_Down :: u8 where "Navigation_Down \<equiv> 97"
abbreviation (input) Navigation_Left :: u8 where "Navigation_Left \<equiv> 98"
abbreviation (input) Navigation_Right :: u8 where "Navigation_Right \<equiv> 99"
abbreviation (input) Navigation_Zoom :: u8 where "Navigation_Zoom \<equiv> 100"
abbreviation (input) Navigation_Scrub :: u8 where "Navigation_Scrub \<equiv> 101"

abbreviation (input) Protocol_Ping :: u8 where "Protocol_Ping \<equiv> 127"

text \<open>
  Modelled from the spec: the two controller numbers \<open>V2MIDI::CC::AllSoundOff\<close> and
  \<open>V2MIDI::CC::AllNotesOff\<close> belong to the transport library, which is not part of the
  sources; they are the "all sound off / all notes off" controllers of MIDI, 120 and 123.
\<close>

abbreviation (input) CC_AllSoundOff :: u8 where "CC_AllSoundOff \<equiv> 120"
abbreviation (input) CC_AllNotesOff :: u8 where "CC_AllNotesOff \<equiv> 123"

section \<open>The class V2Mackie: enumerations\<close>

datatype StripButton = Arm | Mute | Select | Solo | Touch | VPot
datatype TransportButton = Rewind | Forward | Stop | Play | Record
datatype BankButton = Previous | Next | PreviousChannel | NextChannel | Flip | Edit
datatype ModifierButton = Shift | Option | Control | Alt
datatype NavigationButton = Up | Down | Left | Right | Zoom | Scrub
datatype VPotMode = Off | Pan | Bar
datatype TimeType = SMPTE | Beats

section \<open>The transport message\<close>

text \<open>
  Modelled from the spec: \<open>V2MIDI::Packet\<close> is the message of the transport library, an
  external collaborator whose code is not part of the sources. A packet is one of the five
  channel-voice kinds the codec switches on, holding the fields its setter was given and
  its getters return, or a packet of any other status (\<open>OtherStatus\<close>). The fields are
  channel and note and velocity; channel and note; channel, controller and value; channel
  and pressure; channel and the signed 14-bit bend as an \<open>int16_t\<close>.
\<close>

datatype Packet =
    NoteOn u8 u8 u8
  | NoteOff u8 u8
  | ControlChange u8 u8 u8
  | AftertouchChannel u8 u8
  | PitchBend u8 i16
  | OtherStatus

section \<open>Encoders\<close>

text \<open>
  \<open>setStripMeterOverload\<close>: the argument \<open>strip << 4 | overload ? 14 : 15\<close> parses as
  \<open>((strip << 4) | overload) ? 14 : 15\<close>. The operands are promoted to \<open>int\<close>, the
  condition is "not zero".
\<close>

definition setStripMeterOverload :: "u8 \<Rightarrow> bool \<Rightarrow> Packet" where
  "setStripMeterOverload strip overload =
     AftertouchChannel 0
       (if (push_bit 4 (uint strip) OR (if overload then 1 else 0)) \<noteq> (0::int) then 14 else 15)"

text \<open>
  The conversion of a \<open>float\<close> to \<open>int16_t\<close> truncates towards zero and is undefined when
  the truncated value is not an \<open>int16_t\<close>: \<open>None\<close>.
\<close>

definition float_trunc :: "real \<Rightarrow> int" where
  "float_trunc x = (if 0 \<le> x then \<lfloor>x\<rfloor> else \<lceil>x\<rceil>)"

definition float_to_int16 :: "real \<Rightarrow> i16 option" where
  "float_to_int16 x =
     (if - 32768 \<le> float_trunc x \<and> float_trunc x \<le> 32767
      then Some (word_of_int (float_trunc x)) else None)"

text \<open>
  \<open>setStripFader\<close>: \<open>range = (float)(8176 + 8192) * fraction\<close>, a single-precision product
  converted to \<open>int16_t\<close>; \<open>value = range - 8192\<close> narrowed to \<open>int16_t\<close>; then
  \<open>setPitchBend(strip, value)\<close>.
\<close>

definition setStripFader :: "u8 \<Rightarrow> real \<Rightarrow> Packet option" where
  "setStripFader strip fraction =
     (case float_to_int16 (float32 (real_of_int (8176 + 8192) * fraction)) of
        None \<Rightarrow> None
      | Some rng \<Rightarrow> Some (PitchBend strip (rng - 8192)))"


text \<open>
  \<open>setStripIndex\<close> returns \<open>NULL\<close> (\<open>None\<close>) or the packet, rewritten in place.
  \<open>strip_note\<close> is the switch on the note number, the same in the note-on and in the
  note-off case: the note of the target strip in the range of the given note.
  \<open>strip << 4 | value\<close> is narrowed to the \<open>uint8_t\<close> parameter of the setter.
\<close>

definition strip_note :: "u8 \<Rightarrow> u8 \<Rightarrow> u8 option" where
  "strip_note note strip =
     (if VPot_Push \<le> note \<and> note \<le> VPot_Push + 7 then Some (VPot_Push + strip)
      else if Button_Arm \<le> note \<and> note \<le> Button_Arm + 7 then Some (Button_Arm + strip)
      else if Button_Solo \<le> note \<and> note \<le> Button_Solo + 7 then Some (Button_Solo + strip)
      else if Button_Mute \<le> note \<and> note \<le> Button_Mute + 7 then Some (Button_Mute + strip)
      else if Button_Select \<le> note \<and> note \<le> Button_Select + 7 then Some (Button_Select + strip)
      else if Fader_Touch \<le> note \<and> note \<le> Fader_Touch + 7 then Some (Fader_Touch + strip)
      else None)"

fun setStripIndex :: "Packet \<Rightarrow> u8 \<Rightarrow> Packet option" where
  "setStripIndex (NoteOn channel note velocity) strip =
     (if channel \<noteq> 0 then None
      else case strip_note note strip of
             None \<Rightarrow> None
           | Some n \<Rightarrow> Some (NoteOn 0 n velocity))"
| "setStripIndex (NoteOff channel note) strip =
     (if channel \<noteq> 0 then None
      else case strip_note note strip of
             None \<Rightarrow> None
           | Some n \<Rightarrow> Some (NoteOff 0 n))"
| "setStripIndex (ControlChange channel controller v) strip =
     (if channel \<noteq> 0 then None
      else if VPot_LED \<le> controller \<and> controller \<le> VPot_LED + 7
        then Some (ControlChange 0 (VPot_LED + strip) v)
      else None)"
| "setStripIndex (AftertouchChannel channel pressure) strip =
     (if channel \<noteq> 0 then None
      else if 7 < drop_bit 4 pressure then None
      else Some (AftertouchChannel 0 (push_bit 4 strip OR (pressure AND 0xf))))"
| "setStripIndex (PitchBend channel v) strip =
     (if channel \<le> 7 then Some (PitchBend strip v) else None)"
| "setStripIndex OtherStatus strip = None"

section \<open>The state of the codec\<close>

text \<open>
  One element of \<open>_strips\<close>. The nested structs \<open>vpot\<close>, \<open>fader\<close>, \<open>button\<close> and
  \<open>meter\<close> are flattened, their names kept as prefixes; \<open>display\<close> maps a row to the seven
  bytes last notified for it.
\<close>

record Strip =
  display :: "nat \<Rightarrow> u8 list"
  vpot_mode :: VPotMode
  vpot_center :: bool
  vpot_value :: real
  vpot_click :: bool
  fader_position :: real
  fader_touch :: bool
  button_arm :: bool
  button_mute :: bool
  button_select :: bool
  button_solo :: bool
  meter_fraction :: real
  meter_overload :: bool
  meter_usec :: usec

text \<open>
  The private members of \<open>V2Mackie\<close>; arrays are functions of the index. Three members of
  \<open>_display\<close> are left out because no statement of the code assigns them after their
  zero-initialisation: \<open>mode\<close> and \<open>usec\<close>, which the code never names, are 0, and
  \<open>time.type\<close>, which the code only reads, is \<open>SMPTE\<close>.
\<close>

record Mackie =
  active_usec :: usec
  display_strip :: "nat \<Rightarrow> u8"
  time_digits :: "nat \<Rightarrow> u8"
  strips :: "nat \<Rightarrow> Strip"
  main_fader :: real
  bank_flip :: bool
  bank_edit :: bool
  transport_rewind :: bool
  transport_forward :: bool
  transport_stop :: bool
  transport_play :: bool
  transport_record :: bool
  navigation_zoom :: bool
  navigation_scrub :: bool

text \<open>
  The virtual \<open>handle...\<close> hooks are the notifications of the codec: a call is an event,
  and every operation returns the events in the order of the calls.
\<close>

datatype Event =
    HandleStripVPotDisplay nat VPotMode bool real
  | HandleStripVPotDisplayRaw nat u8
  | HandleStripButton nat StripButton bool
  | HandleStripFader nat real
  | HandleStripMeter nat real bool
  | HandleStripMeterOverload nat bool
  | HandleStripDisplay bool nat nat
  | HandleFader real
  | HandleTransportButton TransportButton bool
  | HandleBankButton BankButton bool
  | HandleModifierButton ModifierButton bool
  | HandleNavigationButton NavigationButton bool
  | HandleTime TimeType
  | HandleTimeout

text \<open>A write far outside every object of the codec: the operation has no defined result.\<close>

datatype Fault = OutOfBounds

definition upd_strip :: "nat \<Rightarrow> (Strip \<Rightarrow> Strip) \<Rightarrow> Mackie \<Rightarrow> Mackie" where
  "upd_strip i f s = s\<lparr>strips := (strips s)(i := f (strips s i))\<rparr>"

definition zero_strip :: Strip where
  "zero_strip =
     \<lparr>display = (\<lambda>row. replicate 7 0), vpot_mode = Off, vpot_center = False, vpot_value = 0,
      vpot_click = False, fader_position = 0, fader_touch = False, button_arm = False,
      button_mute = False, button_select = False, button_solo = False, meter_fraction = 0,
      meter_overload = False, meter_usec = 0\<rparr>"

text \<open>The object as constructed: every member is value-initialised.\<close>

definition constructed :: Mackie where
  "constructed =
     \<lparr>active_usec = 0, display_strip = (\<lambda>k. 0), time_digits = (\<lambda>k. 0),
      strips = (\<lambda>i. zero_strip), main_fader = 0,
      bank_flip = False, bank_edit = False, transport_rewind = False, transport_forward = False,
      transport_stop = False, transport_play = False, transport_record = False,
      navigation_zoom = False, navigation_scrub = False\<rparr>"

text \<open>
  \<open>reset\<close> assigns every member: the display buffer is filled with spaces, the rest is
  zero. \<open>begin()\<close> calls \<open>reset()\<close>.
\<close>

definition reset :: "Mackie \<Rightarrow> Mackie" where
  "reset s = constructed\<lparr>display_strip := (\<lambda>k. 0x20)\<rparr>"

definition begin_state :: Mackie where
  "begin_state = reset constructed"

section \<open>The monitor\<close>

text \<open>
  \<open>micros()\<close> is the clock of the platform; every operation that reads it takes the
  reading \<open>now\<close> as an argument (one reading for one call of the operation). The
  differences are taken in \<open>unsigned long\<close> and wrap around. The constant
  \<open>5000 * 1000\<close> is computed in a 32-bit \<open>int\<close>.
\<close>

fun decay_meters :: "usec \<Rightarrow> nat list \<Rightarrow> Mackie \<Rightarrow> Event list \<times> Mackie" where
  "decay_meters now [] s = ([], s)"
| "decay_meters now (i # rest) s =
     (if meter_fraction (strips s i) \<le> 0 then decay_meters now rest s
      else if now - meter_usec (strips s i) < 1000 * 1000 then decay_meters now rest s
      else (case decay_meters now rest
                   (upd_strip i (\<lambda>t. t\<lparr>meter_fraction := 0, meter_overload := False, meter_usec := 0\<rparr>) s)
            of (evs, s') \<Rightarrow> (HandleStripMeter i 0 False # evs, s')))"

definition loop :: "usec \<Rightarrow> Mackie \<Rightarrow> Event list \<times> Mackie" where
  "loop now s =
     (case (if 0 < active_usec s \<and> 5000 * 1000 < now - active_usec s
            then ([HandleTimeout], s\<lparr>active_usec := 0\<rparr>) else ([], s))
      of (evs1, s1) \<Rightarrow>
        (case decay_meters now [0..<8] s1 of (evs2, s2) \<Rightarrow> (evs1 @ evs2, s2)))"

section \<open>The dispatcher\<close>

definition dispatchNote :: "usec \<Rightarrow> u8 \<Rightarrow> u8 \<Rightarrow> u8 \<Rightarrow> Mackie \<Rightarrow> Event list \<times> Mackie" where
  "dispatchNote now channel note velocity s =
     (let on = (velocity = 127) in
      if channel = 0 then
        (if VPot_Push \<le> note \<and> note \<le> VPot_Push + 7 then
           (let strip = unat (note - VPot_Push) in
            ([HandleStripButton strip VPot on], upd_strip strip (\<lambda>t. t\<lparr>vpot_click := on\<rparr>) s))
         else if Button_Arm \<le> note \<and> note \<le> Button_Arm + 7 then
           (let strip = unat (note - Button_Arm) in
            ([HandleStripButton strip Arm on], upd_strip strip (\<lambda>t. t\<lparr>button_arm := on\<rparr>) s))
         else if Button_Solo \<le> note \<and> note \<le> Button_Solo + 7 then
           (let strip = unat (note - Button_Solo) in
            ([HandleStripButton strip Solo on], upd_strip strip (\<lambda>t. t\<lparr>button_solo := on\<rparr>) s))
         else if Button_Mute \<le> note \<and> note \<le> Button_Mute + 7 then
           (let strip = unat (note - Button_Mute) in
            ([HandleStripButton strip Mute on], upd_strip strip (\<lambda>t. t\<lparr>button_mute := on\<rparr>) s))
         else if Button_Select \<le> note \<and> note \<le> Button_Select + 7 then
           (let strip = unat (note - Button_Select) in
            ([HandleStripButton strip Select on], upd_strip strip (\<lambda>t. t\<lparr>button_select := on\<rparr>) s))
         else if Fader_Touch \<le> note \<and> note \<le> Fader_Touch + 7 then
           (let strip = unat (note - Fader_Touch) in
            ([HandleStripButton strip Touch on], upd_strip strip (\<lambda>t. t\<lparr>fader_touch := on\<rparr>) s))
         else if note = Transport_Rewind then
           ([HandleTransportButton Rewind on], s\<lparr>transport_rewind := on\<rparr>)
         else if note = Transport_Forward then
           ([HandleTransportButton Forward on], s\<lparr>transport_forward := on\<rparr>)
         else if note = Transport_Stop then
           ([HandleTransportButton Stop on], s\<lparr>transport_stop := on\<rparr>)
         else if note = Transport_Play then
           ([HandleTransportButton Play on], s\<lparr>transport_play := on\<rparr>)
         else if note = Transport_Record then
           ([HandleTransportButton Record on], s\<lparr>transport_record := on\<rparr>)
         else if note = Bank_Previous then ([HandleBankButton Previous on], s)
         else if note = Bank_Next then ([HandleBankButton Next on], s)
         else if note = Bank_PreviousChannel then ([HandleBankButton PreviousChannel on], s)
         else if note = Bank_Flip then ([HandleBankButton Flip on], s\<lparr>bank_flip := on\<rparr>)
         else if note = Bank_Edit then ([HandleBankButton Edit on], s\<lparr>bank_edit := on\<rparr>)
         else if note = Modifier_Shift then ([HandleModifierButton Shift on], s)
         else if note = Modifier_Option then ([HandleModifierButton Option on], s)
         else if note = Modifier_Control then ([HandleModifierButton Control on], s)
         else if note = Modifier_Alt then ([HandleModifierButton Alt on], s)
         else if note = Navigation_Up then ([HandleNavigationButton Up on], s)
         else if note = Navigation_Down then ([HandleNavigationButton Down on], s)
         else if note = Navigation_Left then ([HandleNavigationButton Left on], s)
         else if note = Navigation_Right then ([HandleNavigationButton Right on], s)
         else if note = Navigation_Zoom then ([HandleNavigationButton Zoom on], s)
         else if note = Navigation_Scrub then ([HandleNavigationButton Scrub on], s)
         else ([], s))
      else if channel = 15 then
        (if note = Protocol_Ping then ([], s\<lparr>active_usec := now\<rparr>) else ([], s))
      else ([], s))"

definition set_vpot :: "nat \<Rightarrow> VPotMode \<Rightarrow> bool \<Rightarrow> real \<Rightarrow> Mackie \<Rightarrow> Event list \<times> Mackie" where
  "set_vpot strip m center fraction s =
     ([HandleStripVPotDisplay strip m center fraction],
      upd_strip strip (\<lambda>t. t\<lparr>vpot_mode := m, vpot_center := center, vpot_value := fraction\<rparr>) s)"

definition dispatchControlChange :: "u8 \<Rightarrow> u8 \<Rightarrow> u8 \<Rightarrow> Mackie \<Rightarrow> Event list \<times> Mackie" where
  "dispatchControlChange channel controller v s =
     (if channel \<noteq> 0 then ([], s)
      else if Time_Digit \<le> controller \<and> controller \<le> Time_Digit + 9 then
        ([HandleTime SMPTE],
         s\<lparr>time_digits := (time_digits s)(unat (Time_Digit + 9 - controller) := v)\<rparr>)
      else if VPot_LED \<le> controller \<and> controller \<le> VPot_LED + 7 then
        (let strip = unat (controller - VPot_LED);
             center = (v AND 0x40 \<noteq> 0);
             position = v AND 0x0f;
             m = drop_bit 4 v AND 3
         in case (if position = 0 then set_vpot strip Off center 0 s
                  else if m = VPot_Single then
                    set_vpot strip Bar center (float32 (real (unat position) / 11)) s
                  else if m = VPot_Boost then
                    (if position < 6
                     then set_vpot strip Pan center (float32 (real_of_int (6 - uint position) / (- 5))) s
                     else set_vpot strip Pan center (float32 (real_of_int (uint position - 6) / 5)) s)
                  else if m = VPot_Bar then
                    set_vpot strip Bar center (float32 (real (unat position) / 11)) s
                  else if m = VPot_Spread then
                    set_vpot strip Bar center (float32 (real (unat position) / 6)) s
                  else ([], s))
            of (evs, s') \<Rightarrow> (HandleStripVPotDisplayRaw strip v # evs, s'))
      else if controller = CC_AllSoundOff \<or> controller = CC_AllNotesOff then ([], reset s)
      else ([], s))"

definition dispatchAftertouchChannel :: "usec \<Rightarrow> u8 \<Rightarrow> u8 \<Rightarrow> Mackie \<Rightarrow> Event list \<times> Mackie" where
  "dispatchAftertouchChannel now channel pressure s =
     (if channel \<noteq> 0 then ([], s)
      else if 7 < drop_bit 4 pressure then ([], s)
      else
        (let index = unat (drop_bit 4 pressure);
             v = pressure AND 0xf;
             t = strips s index
         in case (if v \<le> 12 then ([], t\<lparr>meter_fraction := float32 (real (unat v) / 12)\<rparr>)
                  else if v = 13 then ([], t\<lparr>meter_fraction := 1\<rparr>)
                  else if v = 14 then
                    (if \<not> meter_overload t then [HandleStripMeterOverload index True] else [],
                     t\<lparr>meter_overload := True\<rparr>)
                  else if v = 15 then
                    (if meter_overload t then [HandleStripMeterOverload index False] else [],
                     t\<lparr>meter_overload := False\<rparr>)
                  else ([], t))
            of (evs, t') \<Rightarrow>
              (evs @ [HandleStripMeter index (meter_fraction t') (meter_overload t')],
               s\<lparr>strips := (strips s)(index := t'\<lparr>meter_usec := now\<rparr>)\<rparr>)))"

text \<open>
  The first half of \<open>dispatchPitchBend\<close>: clamp, shift, and scale. The comparisons are
  signed; \<open>value += 8192\<close> is narrowed to \<open>int16_t\<close>; the quotient is a single-precision
  division.
\<close>

definition pitchBendFraction :: "i16 \<Rightarrow> real" where
  "pitchBendFraction v =
     (let v1 = (if 8176 < sint v then 8176 else if sint v < - 8192 then - 8192 else v);
          v2 = v1 + 8192
      in float32 (real_of_int (sint v2) / real_of_int (8176 + 8192)))"

definition dispatchPitchBend :: "u8 \<Rightarrow> i16 \<Rightarrow> Mackie \<Rightarrow> Event list \<times> Mackie" where
  "dispatchPitchBend channel v s =
     (let fraction = pitchBendFraction v in
      if channel \<le> 7 then
        ([HandleStripFader (unat channel) fraction],
         upd_strip (unat channel) (\<lambda>t. t\<lparr>fader_position := fraction\<rparr>) s)
      else if channel = 8 then ([HandleFader fraction], s\<lparr>main_fader := fraction\<rparr>)
      else ([], s))"

fun dispatchPacket :: "usec \<Rightarrow> Packet \<Rightarrow> Mackie \<Rightarrow> Event list \<times> Mackie" where
  "dispatchPacket now (NoteOn channel note velocity) s = dispatchNote now channel note velocity s"
| "dispatchPacket now (NoteOff channel note) s = dispatchNote now channel note 0 s"
| "dispatchPacket now (ControlChange channel controller v) s =
     dispatchControlChange channel controller v s"
| "dispatchPacket now (AftertouchChannel channel pressure) s =
     dispatchAftertouchChannel now channel pressure s"
| "dispatchPacket now (PitchBend channel v) s = dispatchPitchBend channel v s"
| "dispatchPacket now OtherStatus s = ([], s)"

section \<open>The display reassembler\<close>

text \<open>
  The loop over the 7-character ranges \<open>first\<close> to \<open>last\<close>; \<open>b\<close> is \<open>first + i\<close>. After the
  range test \<open>last = (start + l) / 7\<close> is at most 16, and it is 16 exactly for a frame that
  ends where the display buffer ends. For \<open>b = 16\<close> the strip is 0 and the row is 2, and the
  three accesses of the loop body reach the members that follow the arrays. On the 32-bit
  ARM targets of the library (little endian, an \<open>enum class\<close> is an \<open>int\<close> of 4 bytes aligned
  to 4, padding bytes are zero as zero-initialisation and \<open>memset\<close> leave them):
  \<^item> the seven bytes at \<open>_display.strip + 112\<close> are \<open>mode[0]\<close>, \<open>mode[1]\<close>, two bytes of
    padding and the low three bytes of \<open>time.type\<close>, all of them zero (\<open>beyond_display\<close>);
  \<^item> the seven bytes at \<open>_strips[0].display[2]\<close> are two bytes of padding, the four
    bytes of \<open>vpot.mode\<close> and the byte of \<open>vpot.center\<close> (\<open>beyond_cache\<close>);
  \<^item> \<open>global[2]\<close> is the byte that follows the array \<open>global\<close> on the stack; the model
    takes its value as the argument \<open>beyond_global\<close>.
  So for \<open>b = 16\<close> the \<open>memcmp\<close> compares \<open>beyond_display\<close> with \<open>beyond_cache\<close>, and the
  \<open>memcpy\<close> clears \<open>vpot.mode\<close> and \<open>vpot.center\<close> of strip 0. No larger \<open>b\<close> occurs.
\<close>

definition block_text :: "Mackie \<Rightarrow> nat \<Rightarrow> nat \<Rightarrow> u8 list" where
  "block_text s strip row = map (display_strip s) [56 * row + 7 * strip ..< 56 * row + 7 * strip + 7]"

definition beyond_display :: "u8 list" where
  "beyond_display = [0, 0, 0, 0, 0, 0, 0]"

fun mode_byte :: "VPotMode \<Rightarrow> u8" where
  "mode_byte Off = 0"
| "mode_byte Pan = 1"
| "mode_byte Bar = 2"

definition beyond_cache :: "Strip \<Rightarrow> u8 list" where
  "beyond_cache t = [0, 0, mode_byte (vpot_mode t), 0, 0, 0, if vpot_center t then 1 else 0]"

fun notify_blocks :: "(nat \<Rightarrow> bool) \<Rightarrow> nat list \<Rightarrow> Mackie \<Rightarrow> Fault + (Event list \<times> Mackie)" where
  "notify_blocks global [] s = Inr ([], s)"
| "notify_blocks global (b # rest) s =
     (let strip = b mod 8; row = b div 8 in
      if 2 \<le> row then
        (if b \<noteq> 16 then Inl OutOfBounds
         else if beyond_display = beyond_cache (strips s strip) then notify_blocks global rest s
         else
           (case notify_blocks global rest
                   (upd_strip strip (\<lambda>t. t\<lparr>vpot_mode := Off, vpot_center := False\<rparr>) s)
            of Inl f \<Rightarrow> Inl f
             | Inr (evs, s') \<Rightarrow> Inr (HandleStripDisplay (global row) strip row # evs, s')))
      else if block_text s strip row = display (strips s strip) row then notify_blocks global rest s
      else
        (case notify_blocks global rest
                (upd_strip strip (\<lambda>t. t\<lparr>display := (display t)(row := block_text s strip row)\<rparr>) s)
         of Inl f \<Rightarrow> Inl f
          | Inr (evs, s') \<Rightarrow> Inr (HandleStripDisplay (global row) strip row # evs, s')))"

text \<open>
  The body of the \<open>Display\<close> case after the range test, with \<open>start\<close>, the text pointer
  \<open>p\<close> and the text length \<open>l\<close>: the \<open>memcpy\<close> into the display buffer, the two
  \<open>global\<close> flags, and the loop from \<open>first\<close> to \<open>last\<close>.
\<close>

definition display_frame ::
    "bool \<Rightarrow> nat \<Rightarrow> nat \<Rightarrow> u8 list \<Rightarrow> Mackie \<Rightarrow> Fault + (Event list \<times> Mackie)" where
  "display_frame beyond_global start l p s =
     (let s1 = s\<lparr>display_strip :=
                  (\<lambda>k. if start \<le> k \<and> k < start + l then p ! (k - start)
                       else display_strip s k)\<rparr>;
          global0 = list_ex (\<lambda>i. display_strip s1 (i * 7 + 6) \<noteq> 0x20) [0..<8];
          global1 = list_ex (\<lambda>i. display_strip s1 (i * 7 + 6) \<noteq> 0x20) [8..<16];
          first = start div 7;
          last = (start + l) div 7;
          count = 1 + (last - first)
      in notify_blocks (\<lambda>row. if row = 0 then global0 else if row = 1 then global1 else beyond_global)
           (map (\<lambda>i. first + i) [0..<count]) s1)"

text \<open>
  \<open>dispatchSystemExclusive(buffer, len)\<close>: the model takes the \<open>len\<close> bytes of the frame,
  and the byte \<open>beyond_global\<close> of the stack for the loop. \<open>len\<close> and \<open>l\<close> are
  \<open>uint32_t\<close>, so the sum \<open>start + l\<close> is taken modulo \<open>2 ^ 32\<close>; a \<open>memcpy\<close> that passes
  the test with a wrapped sum (a frame of about 4 GiB) writes far beyond the buffer, and
  such a call has no defined result.
\<close>

definition dispatchSystemExclusive ::
    "bool \<Rightarrow> u8 list \<Rightarrow> Mackie \<Rightarrow> Fault + (Event list \<times> Mackie)" where
  "dispatchSystemExclusive beyond_global buffer s =
     (let len = length buffer in
      if len < 1 + Header_Message + 1 + 1 then Inr ([], s)
      else
        (let p = drop 1 buffer; l = len - 2 in
         if take 3 p \<noteq> Vendor then Inr ([], s)
         else if p ! Header_Device \<noteq> Device_Control \<and> p ! Header_Device \<noteq> Device_ControlXT
           then Inr ([], s)
         else if p ! Header_Type = Type_Display then
           (let p = drop Header_Message p; l = l - Header_Message in
            if len < Display_Header_Text + 1 then Inr ([], s)
            else
              (let start = unat (p ! Display_Header_Index);
                   p = drop Display_Header_Text p;
                   l = l - Display_Header_Text
               in if 112 < (start + l) mod 2 ^ 32 then Inr ([], s)
                  else if 112 < start + l then Inl OutOfBounds
                  else display_frame beyond_global start l p s))
         else Inr ([], s)))"

text \<open>The display-changed notifications for one strip and row, whatever their flag.\<close>

fun is_display_event :: "nat \<Rightarrow> nat \<Rightarrow> Event \<Rightarrow> bool" where
  "is_display_event strip row (HandleStripDisplay g st r) = (st = strip \<and> r = row)"
| "is_display_event strip row e = False"

text \<open>
  The 7-character range \<open>b\<close> of the display belongs to strip \<open>b mod 8\<close> and row
  \<open>b div 8\<close>: \<open>text_of\<close> is its content in the display buffer, \<open>cache_of\<close> the copy kept
  in the strip.
\<close>

definition text_of :: "Mackie \<Rightarrow> nat \<Rightarrow> u8 list" where
  "text_of s b = block_text s (b mod 8) (b div 8)"

definition cache_of :: "Mackie \<Rightarrow> nat \<Rightarrow> u8 list" where
  "cache_of s b = display (strips s (b mod 8)) (b div 8)"

section \<open>Sequences of calls\<close>

text \<open>
  The application calls \<open>loop()\<close> and \<open>dispatchPacket()\<close> one after the other; each call
  comes with the reading of the clock at that moment. \<open>run\<close> collects the events.
\<close>

datatype Call = Loop | DispatchPacket Packet

fun call :: "usec \<Rightarrow> Call \<Rightarrow> Mackie \<Rightarrow> Event list \<times> Mackie" where
  "call now Loop s = loop now s"
| "call now (DispatchPacket p) s = dispatchPacket now p s"

fun run :: "(usec \<times> Call) list \<Rightarrow> Mackie \<Rightarrow> Event list \<times> Mackie" where
  "run [] s = ([], s)"
| "run ((now, c) # rest) s =
     (case call now c s of (evs, s') \<Rightarrow> (case run rest s' of (evs', s'') \<Rightarrow> (evs @ evs', s'')))"

text \<open>The heartbeat note: a note-on or note-off on channel 15 at the ping address.\<close>

fun heartbeat :: "Call \<Rightarrow> bool" where
  "heartbeat (DispatchPacket (NoteOn channel nt velocity)) = (channel = 15 \<and> nt = Protocol_Ping)"
| "heartbeat (DispatchPacket (NoteOff channel nt)) = (channel = 15 \<and> nt = Protocol_Ping)"
| "heartbeat c = False"

section \<open>The message shapes of setStripIndex\<close>

text \<open>
  The message shapes that carry a strip, in the words of the specification: the per-strip
  note ranges on channel 0 (notes 0 to 39 and 104 to 111, note-on or note-off), the
  rotary-LED controllers 48 to 55 on channel 0, the meter channel-pressure on channel 0 with
  a strip nibble of 0 to 7, and the pitch bend on the channels 0 to 7.
\<close>

fun supported_shape :: "Packet \<Rightarrow> bool" where
  "supported_shape (NoteOn channel note velocity) =
     (channel = 0 \<and> (note \<le> 39 \<or> (104 \<le> note \<and> note \<le> 111)))"
| "supported_shape (NoteOff channel note) =
     (channel = 0 \<and> (note \<le> 39 \<or> (104 \<le> note \<and> note \<le> 111)))"
| "supported_shape (ControlChange channel controller v) =
     (channel = 0 \<and> 48 \<le> controller \<and> controller \<le> 55)"
| "supported_shape (AftertouchChannel channel pressure) = (channel = 0 \<and> drop_bit 4 pressure \<le> 7)"
| "supported_shape (PitchBend channel v) = (channel \<le> 7)"
| "supported_shape OtherStatus = False"

section \<open>Properties of the encoders\<close>

text \<open>
  C1 (as amended). For every strip index and every value of the overload flag,
  \<open>setStripMeterOverload\<close> emits a channel-pressure message on channel 0 whose whole value
  byte is 15 when the strip is 0 and the flag is clear, and 14 in every other case: the
  conditional operator binds after the bitwise or, so the strip index is never encoded.
\<close>

theorem setStripMeterOverload_value:
  "setStripMeterOverload strip overload =
     AftertouchChannel 0 (if strip = 0 \<and> \<not> overload then 15 else 14)"
proof (cases overload)
  case True
  have "push_bit 4 (uint strip) OR (1::int) \<noteq> 0"
    by (metis bit_0 bit_or_iff even_zero odd_one)
  with True show ?thesis by (simp add: setStripMeterOverload_def)
next
  case False
  have "(push_bit 4 (uint strip) = (0::int)) = (strip = 0)"
    by (simp add: push_bit_eq_mult uint_0_iff)
  with False show ?thesis by (simp add: setStripMeterOverload_def)
qed

text \<open>
  C1 (as stated) fails: for strip 0 with the overload flag set, and for strip 1 with the
  flag clear, the level (the low nibble of the value byte) is 14, not 15.
\<close>

theorem setStripMeterOverload_counterexample:
  "setStripMeterOverload 0 True = AftertouchChannel 0 14
   \<and> setStripMeterOverload 1 False = AftertouchChannel 0 14
   \<and> (14::u8) AND 0xf \<noteq> 15"
  by (simp add: setStripMeterOverload_def)




subsection \<open>Single-precision rounding\<close>

lemma round_even_error: "\<bar>real_of_int (round_even x) - x\<bar> \<le> 1 / 2"
  unfolding round_even_def Let_def by (auto; linarith)

lemma round_even_nonneg: "0 \<le> x \<Longrightarrow> 0 \<le> round_even x"
  unfolding round_even_def Let_def by (auto; linarith)

lemma round_even_of_int: "round_even (real_of_int k) = k"
  by (simp add: round_even_def)

lemma exponent_from_ge: "e \<le> exponent_from k e x"
proof (induction k arbitrary: e)
  case 0
  show ?case by simp
next
  case (Suc k)
  from Suc [of "e + 1"] show ?case by simp
qed

lemma exponent_from_le: "exponent_from k e x = e \<or> 2 powi (exponent_from k e x) \<le> x"
proof (induction k arbitrary: e)
  case 0
  show ?case by simp
next
  case (Suc k)
  from Suc [of "e + 1"] show ?case by auto
qed

lemma exponent_from_eq:
  assumes "e \<le> e'" and "e' \<le> e + int k" and "e < e' \<longrightarrow> 2 powi e' \<le> x" and "x < 2 powi (e' + 1)"
  shows "exponent_from k e x = e'"
  using assms
proof (induction k arbitrary: e)
  case 0
  then show ?case by simp
next
  case (Suc k)
  show ?case
  proof (cases "2 powi (e + 1) \<le> x")
    case True
    have "e < e'"
    proof (rule ccontr)
      assume "\<not> e < e'"
      with Suc.prems(1) have "e' = e" by simp
      with Suc.prems(4) True show False by simp
    qed
    with Suc.prems have "exponent_from k (e + 1) x = e'"
      by (intro Suc.IH) auto
    with True show ?thesis by simp
  next
    case False
    have "e' = e"
    proof (rule ccontr)
      assume "e' \<noteq> e"
      with Suc.prems(1) have lt: "e < e'" by simp
      then have "(2::real) powi (e + 1) \<le> 2 powi e'"
        by (intro power_int_increasing) auto
      with Suc.prems(3) lt False show False by simp
    qed
    with False show ?thesis by simp
  qed
qed

lemma float32_eval:
  assumes "- 126 \<le> e" and "e \<le> 127" and "2 powi e \<le> \<bar>x\<bar>" and "\<bar>x\<bar> < 2 powi (e + 1)"
  shows "float32 x = 2 powi (e - 23) * real_of_int (round_even (x / 2 powi (e - 23)))"
proof -
  have "exponent_from 253 (- 126) \<bar>x\<bar> = e"
    using assms by (intro exponent_from_eq) auto
  then show ?thesis by (simp add: float32_def Let_def)
qed

lemma float32_zero: "float32 0 = 0"
  by (simp add: float32_def round_even_def)

lemma float32_error:
  assumes "0 \<le> x" and "x < 2 powi (m + 1)" and "- 126 \<le> m"
  shows "0 \<le> float32 x" and "\<bar>float32 x - x\<bar> \<le> 2 powi (m - 24)"
proof -
  define r where "r = exponent_from 253 (- 126) \<bar>x\<bar>"
  define u :: real where "u = 2 powi (r - 23)"
  have u: "0 < u" by (simp add: u_def)
  have "r \<le> m"
  proof -
    from exponent_from_le [of 253 "- 126" "\<bar>x\<bar>"] have "r = - 126 \<or> 2 powi r \<le> x"
      using assms(1) by (simp add: r_def)
    then show ?thesis
    proof
      assume "r = - 126" with assms(3) show ?thesis by simp
    next
      assume "2 powi r \<le> x"
      with assms(2) have "(2::real) powi r < 2 powi (m + 1)" by simp
      have "r < m + 1"
      proof (rule ccontr)
        assume "\<not> r < m + 1"
        then have "(2::real) powi (m + 1) \<le> 2 powi r"
          by (intro power_int_increasing) auto
        with \<open>(2::real) powi r < 2 powi (m + 1)\<close> show False by simp
      qed
      then show ?thesis by simp
    qed
  qed
  then have um: "u \<le> 2 powi (m - 23)"
    unfolding u_def by (intro power_int_increasing) auto
  have f: "float32 x = u * real_of_int (round_even (x / u))"
    by (simp add: float32_def r_def u_def Let_def)
  have "0 \<le> x / u" using assms(1) u by simp
  then have "0 \<le> round_even (x / u)" by (rule round_even_nonneg)
  with u show "0 \<le> float32 x" unfolding f by simp
  have "float32 x - x = u * (real_of_int (round_even (x / u)) - x / u)"
    unfolding f using u by (simp add: algebra_simps)
  then have "\<bar>float32 x - x\<bar> = u * \<bar>real_of_int (round_even (x / u)) - x / u\<bar>"
    using u by (simp add: abs_mult)
  also have "\<dots> \<le> u * (1 / 2)"
    using u round_even_error [of "x / u"] by (intro mult_left_mono) auto
  also have "\<dots> \<le> 2 powi (m - 23) * (1 / 2)" using um by simp
  also have "\<dots> = 2 powi (m - 24)"
    using power_int_add_1 [of "2::real" "m - 24"] by (simp add: algebra_simps)
  finally show "\<bar>float32 x - x\<bar> \<le> 2 powi (m - 24)" .
qed

subsection \<open>The fader round trip\<close>

lemma sint16_of_int:
  assumes "- 32768 \<le> k" and "k \<le> 32767"
  shows "sint (word_of_int k :: i16) = k"
  using assms by (simp add: sint_sbintrunc' signed_take_bit_int_eq_self)

lemma fader_product:
  assumes "0 \<le> fraction" and "fraction \<le> 1"
  shows "0 \<le> float32 (16368 * fraction)"
    and "\<bar>float32 (16368 * fraction) - 16368 * fraction\<bar> \<le> 1 / 2048"
proof -
  have x: "0 \<le> 16368 * fraction" "16368 * fraction < 2 powi (13 + 1)" using assms by simp_all
  from float32_error [OF x] show "0 \<le> float32 (16368 * fraction)"
    and "\<bar>float32 (16368 * fraction) - 16368 * fraction\<bar> \<le> 1 / 2048"
    by simp_all
qed

lemma setStripFader_floor:
  assumes "0 \<le> fraction" and "fraction \<le> 1"
  shows "setStripFader strip fraction =
           Some (PitchBend strip (word_of_int (\<lfloor>float32 (16368 * fraction)\<rfloor> - 8192)))"
    and "0 \<le> \<lfloor>float32 (16368 * fraction)\<rfloor>"
    and "\<lfloor>float32 (16368 * fraction)\<rfloor> \<le> 16368"
proof -
  let ?p = "float32 (16368 * fraction)"
  note p = fader_product [OF assms]
  have "?p \<le> 16368 * fraction + 1 / 2048" using p(2) by linarith
  also have "\<dots> < 16369" using assms(2) by simp
  finally have "\<lfloor>?p\<rfloor> < 16369" by (simp add: floor_less_iff)
  then show hi: "\<lfloor>?p\<rfloor> \<le> 16368" by simp
  show lo: "0 \<le> \<lfloor>?p\<rfloor>" using p(1) by simp
  from lo hi p(1) show "setStripFader strip fraction = Some (PitchBend strip (word_of_int (\<lfloor>?p\<rfloor> - 8192)))"
    by (simp add: setStripFader_def float_to_int16_def float_trunc_def)
qed

lemma pitchBendFraction_of_int:
  assumes "0 \<le> n" and "n \<le> 16368"
  shows "pitchBendFraction (word_of_int (n - 8192)) = float32 (real_of_int n / 16368)"
proof -
  let ?v = "word_of_int (n - 8192) :: i16"
  have s: "sint ?v = n - 8192"
    using assms by (intro sint16_of_int) simp_all
  have c: "\<not> 8176 < sint ?v" "\<not> sint ?v < - 8192" using s assms by simp_all
  have "pitchBendFraction ?v = float32 (real_of_int (sint (?v + 8192)) / real_of_int (8176 + 8192))"
    unfolding pitchBendFraction_def Let_def if_not_P [OF c(1)] if_not_P [OF c(2)] ..
  also have "?v + 8192 = word_of_int n" by simp
  also have "sint (word_of_int n :: i16) = n"
    using assms by (intro sint16_of_int) simp_all
  finally show ?thesis by simp
qed

text \<open>
  C5 (as amended). For every strip from 0 to 7 and every fraction from 0 to 1,
  \<open>setStripFader\<close> produces a pitch bend that \<open>dispatchPacket\<close> decodes (clamp to
  \<open>[-8192, 8176]\<close>, shift by 8192, divide by 16368) to a fraction that differs from the
  original by less than \<open>1 / 16368 + 1 / 2 ^ 23\<close>: one step of the scale of 16368 steps
  the code uses, and the rounding of the two single-precision operations.
\<close>

theorem fader_roundtrip:
  assumes "strip \<le> 7" and "0 \<le> fraction" and "fraction \<le> 1"
  shows "\<exists>v. setStripFader strip fraction = Some (PitchBend strip v)
           \<and> dispatchPacket now (PitchBend strip v) s =
               ([HandleStripFader (unat strip) (pitchBendFraction v)],
                upd_strip (unat strip) (\<lambda>t. t\<lparr>fader_position := pitchBendFraction v\<rparr>) s)
           \<and> \<bar>pitchBendFraction v - fraction\<bar> < 1 / 16368 + 1 / 2 ^ 23"
proof -
  let ?p = "float32 (16368 * fraction)"
  let ?n = "\<lfloor>?p\<rfloor>"
  let ?v = "word_of_int (?n - 8192) :: i16"
  let ?y = "real_of_int ?n / 16368"
  note p = fader_product [OF assms(2,3)]
  note e = setStripFader_floor(1) [OF assms(2,3), of strip] setStripFader_floor(2,3) [OF assms(2,3)]
  have f: "pitchBendFraction ?v = float32 ?y"
    using e(2,3) by (rule pitchBendFraction_of_int)
  have y: "0 \<le> ?y" "?y < 2 powi (0 + 1)" using e(2,3) by simp_all
  have r: "\<bar>float32 ?y - ?y\<bar> \<le> 1 / 2 ^ 24"
    using float32_error(2) [OF y] by simp
  have n: "real_of_int ?n \<le> ?p" "?p < real_of_int ?n + 1" by linarith+
  have "\<bar>real_of_int ?n - 16368 * fraction\<bar> < 1 + 1 / 2048" using n p(2) by linarith
  then have q: "\<bar>?y - fraction\<bar> < (1 + 1 / 2048) / 16368" by (simp add: field_simps abs_if split: if_splits)
  have "\<bar>float32 ?y - fraction\<bar> \<le> \<bar>float32 ?y - ?y\<bar> + \<bar>?y - fraction\<bar>" by linarith
  also have "\<dots> < 1 / 2 ^ 24 + (1 + 1 / 2048) / 16368" using r q by linarith
  also have "\<dots> \<le> 1 / 16368 + 1 / 2 ^ 23" by simp
  finally have bound: "\<bar>pitchBendFraction ?v - fraction\<bar> < 1 / 16368 + 1 / 2 ^ 23" unfolding f .
  have "dispatchPacket now (PitchBend strip ?v) s =
               ([HandleStripFader (unat strip) (pitchBendFraction ?v)],
                upd_strip (unat strip) (\<lambda>t. t\<lparr>fader_position := pitchBendFraction ?v\<rparr>) s)"
    using assms(1) by (simp add: dispatchPitchBend_def Let_def)
  with e(1) bound show ?thesis by blast
qed

lemma float32_product_rounds_up: "float32 (16368 * (69636 / 1048576)) = 1087"
proof -
  have "float32 (16368 * (69636 / 1048576)) =
          2 powi (10 - 23) * real_of_int (round_even (16368 * (69636 / 1048576) / 2 powi (10 - 23)))"
    by (rule float32_eval) simp_all
  then show ?thesis by (simp add: round_even_def)
qed

lemma float32_quotient_1087: "float32 (1087 / 16368) = 8913409 / 134217728"
proof -
  have "float32 (1087 / 16368) =
          2 powi (- 4 - 23) * real_of_int (round_even (1087 / 16368 / 2 powi (- 4 - 23)))"
    by (rule float32_eval) simp_all
  then show ?thesis by (simp add: round_even_def)
qed

theorem fader_roundtrip_witness:
  "setStripFader 3 (69636 / 1048576) = Some (PitchBend 3 (- 7105))
   \<and> dispatchPacket 0 (PitchBend 3 (- 7105)) begin_state =
       ([HandleStripFader 3 (8913409 / 134217728)],
        upd_strip 3 (\<lambda>t. t\<lparr>fader_position := 8913409 / 134217728\<rparr>) begin_state)
   \<and> \<bar>(8913409::real) / 134217728 - 69636 / 1048576\<bar> < 1 / 16368 + 1 / 2 ^ 23"
proof -
  have p: "pitchBendFraction (- 7105) = 8913409 / 134217728"
    by (simp add: pitchBendFraction_def Let_def float32_quotient_1087)
  have x: "real_of_int (8176 + 8192) * (69636 / 1048576) = 16368 * (69636 / 1048576)" by simp
  have e: "setStripFader 3 (69636 / 1048576) = Some (PitchBend 3 (- 7105))"
    unfolding setStripFader_def x float32_product_rounds_up
    by (simp add: float_to_int16_def float_trunc_def)
  from fader_roundtrip [of 3 "69636 / 1048576" 0 begin_state] show ?thesis
    unfolding e p by (simp add: dispatchPitchBend_def p)
qed

text \<open>
  C5 (as stated) fails: the fraction \<open>1025 / 2 ^ 24\<close>, just above \<open>1 / 16384\<close>, is a
  single-precision number; its product with 16368 is \<open>16777200 / 2 ^ 24\<close>, exact and below
  1, so it is encoded as the bend \<open>-8192\<close> and decoded as 0, and the difference is more
  than \<open>1 / 16384\<close>.
\<close>

lemma float32_product_exact: "float32 (16368 * (1025 / 16777216)) = 16777200 / 16777216"
proof -
  have "float32 (16368 * (1025 / 16777216)) =
          2 powi (- 1 - 23) * real_of_int (round_even (16368 * (1025 / 16777216) / 2 powi (- 1 - 23)))"
    by (rule float32_eval) simp_all
  then show ?thesis by (simp add: round_even_def)
qed

theorem fader_roundtrip_counterexample:
  "setStripFader 0 (1025 / 16777216) = Some (PitchBend 0 (- 8192))
   \<and> fst (dispatchPacket 0 (PitchBend 0 (- 8192)) begin_state) = [HandleStripFader 0 0]
   \<and> pitchBendFraction (- 8192) = 0
   \<and> \<not> \<bar>pitchBendFraction (- 8192) - 1025 / 16777216\<bar> \<le> 1 / 16384"
proof -
  have p: "pitchBendFraction (- 8192) = 0"
    by (simp add: pitchBendFraction_def Let_def float32_zero)
  have x: "real_of_int (8176 + 8192) * (1025 / 16777216) = 16368 * (1025 / 16777216)" by simp
  have e: "setStripFader 0 (1025 / 16777216) = Some (PitchBend 0 (- 8192))"
    unfolding setStripFader_def x float32_product_exact
    by (simp add: float_to_int16_def float_trunc_def)
  show ?thesis unfolding e p by (simp add: dispatchPitchBend_def p)
qed

subsection \<open>Retargeting a message to a strip\<close>

lemma strip_le_7: "(s::u8) \<le> 7 \<Longrightarrow> s \<in> {0, 1, 2, 3, 4, 5, 6, 7}"
  by (auto simp add: word_le_nat_alt word_unat_eq_iff)

lemma strip_note_slot_enum:
  assumes "k \<in> {0, 1, 2, 3, 4, 5, 6, 7}"
  shows "strip_note (32 + k) t = Some (32 + t) \<and> strip_note (0 + k) t = Some (0 + t)
       \<and> strip_note (8 + k) t = Some (8 + t) \<and> strip_note (16 + k) t = Some (16 + t)
       \<and> strip_note (24 + k) t = Some (24 + t) \<and> strip_note (104 + k) t = Some (104 + t)"
  using assms
  apply (elim insertE emptyE)
  apply (simp_all add: strip_note_def word_le_nat_alt)
  done

lemma strip_note_class:
  assumes "strip_note note strip = Some n"
  shows "\<exists>B\<in>{32, 0, 8, 16, 24, 104}. \<exists>k\<le>7. note = B + k \<and> n = B + strip"
proof -
  have k: "B \<le> note \<Longrightarrow> note \<le> B + 7 \<Longrightarrow> B \<le> 200 \<Longrightarrow> note - B \<le> 7" for B :: u8
    by unat_arith
  have w: "B \<le> note \<Longrightarrow> note \<le> B + 7 \<Longrightarrow> B \<le> 200 \<Longrightarrow> \<exists>k\<le>7. note = B + k" for B :: u8
    using k [of B] by (intro exI [of _ "note - B"]) simp
  from assms consider
      "32 \<le> note" "note \<le> 32 + 7" "n = 32 + strip"
    | "0 \<le> note" "note \<le> 0 + 7" "n = 0 + strip"
    | "8 \<le> note" "note \<le> 8 + 7" "n = 8 + strip"
    | "16 \<le> note" "note \<le> 16 + 7" "n = 16 + strip"
    | "24 \<le> note" "note \<le> 24 + 7" "n = 24 + strip"
    | "104 \<le> note" "note \<le> 104 + 7" "n = 104 + strip"
    unfolding strip_note_def by (auto split: if_splits)
  then show ?thesis
  proof cases
    case 1 with w [of 32] show ?thesis by simp
  next
    case 2 with w [of 0] show ?thesis by simp
  next
    case 3 with w [of 8] show ?thesis by simp
  next
    case 4 with w [of 16] show ?thesis by simp
  next
    case 5 with w [of 24] show ?thesis by simp
  next
    case 6 with w [of 104] show ?thesis by simp
  qed
qed

lemma nibble_high:
  assumes "strip \<le> (7::u8)"
  shows "drop_bit 4 (push_bit 4 strip OR (p AND 0xf)) = strip"
  using strip_le_7 [OF assms]
  apply (elim insertE emptyE)
  apply simp_all
  done

lemma strip_note_None: "(strip_note nt strip = None) = (\<not> (nt \<le> 39 \<or> (104 \<le> nt \<and> nt \<le> 111)))"
  unfolding strip_note_def by (auto simp add: word_le_nat_alt)

lemma strip_note_inj:
  assumes "strip_note nt s = strip_note nt t" and "strip_note nt s \<noteq> None"
  shows "s = t"
  using assms unfolding strip_note_def by (auto split: if_splits)

lemma nibble_mask: "(0xf::u8) = mask 4"
  by (simp add: mask_eq_exp_minus_1)

lemma nibble_low: "(push_bit 4 strip OR (p AND 0xf)) AND 0xf = p AND (0xf::u8)"
  unfolding nibble_mask by (rule bit_word_eqI) (auto simp add: bit_simps)

lemma nibble_join: "push_bit 4 (drop_bit 4 p) OR (p AND 0xf) = (p::u8)"
  unfolding nibble_mask by (rule bit_word_eqI) (auto simp add: bit_simps)

lemma led_slot:
  assumes "strip \<le> (7::u8)"
  shows "48 \<le> 48 + strip \<and> 48 + strip \<le> 48 + 7"
  using strip_le_7 [OF assms]
  apply (elim insertE emptyE)
  apply (simp_all add: word_le_nat_alt)
  done

lemma setStripIndex_None_iff: "(setStripIndex p strip = None) = (\<not> supported_shape p)"
proof (cases p)
  case (NoteOn channel nt velocity)
  then show ?thesis using strip_note_None [of nt strip] by (auto split: option.splits)
next
  case (NoteOff channel nt)
  then show ?thesis using strip_note_None [of nt strip] by (auto split: option.splits)
next
  case (AftertouchChannel channel pressure)
  then show ?thesis by (auto simp add: not_less)
qed simp_all

lemma setStripIndex_family:
  assumes "strip \<le> 7" and "setStripIndex p strip = Some q"
  shows "setStripIndex q t = setStripIndex p t"
proof (cases p)
  case (NoteOn channel nt velocity)
  with assms(2) obtain n where n: "channel = 0" "strip_note nt strip = Some n" "q = NoteOn 0 n velocity"
    by (auto split: if_splits option.splits)
  from strip_note_class [OF n(2)] obtain B k where
    "B \<in> {32, 0, 8, 16, 24, 104}" "k \<le> 7" "nt = B + k" "n = B + strip" by blast
  with strip_note_slot_enum [OF strip_le_7 [OF assms(1)], of t] strip_note_slot_enum [OF strip_le_7 [OF \<open>k \<le> 7\<close>], of t]
  have "strip_note n t = strip_note nt t" by auto
  with n NoteOn show ?thesis by simp
next
  case (NoteOff channel nt)
  with assms(2) obtain n where n: "channel = 0" "strip_note nt strip = Some n" "q = NoteOff 0 n"
    by (auto split: if_splits option.splits)
  from strip_note_class [OF n(2)] obtain B k where
    "B \<in> {32, 0, 8, 16, 24, 104}" "k \<le> 7" "nt = B + k" "n = B + strip" by blast
  with strip_note_slot_enum [OF strip_le_7 [OF assms(1)], of t] strip_note_slot_enum [OF strip_le_7 [OF \<open>k \<le> 7\<close>], of t]
  have "strip_note n t = strip_note nt t" by auto
  with n NoteOff show ?thesis by simp
next
  case (ControlChange channel controller v)
  with assms(2) led_slot [OF assms(1)] show ?thesis by (auto split: if_splits)
next
  case (AftertouchChannel channel pressure)
  with assms(2) nibble_high [OF assms(1), of pressure] nibble_low [of strip pressure] assms(1)
  show ?thesis by (auto split: if_splits)
next
  case (PitchBend channel v)
  with assms show ?thesis by (auto split: if_splits)
next
  case OtherStatus
  with assms show ?thesis by simp
qed

lemma setStripIndex_inj:
  assumes "strip \<le> 7" and "target \<le> 7" and "supported_shape p"
    and "setStripIndex p strip = setStripIndex p target"
  shows "strip = target"
proof (cases p)
  case (NoteOn channel nt velocity)
  with assms(3) have "strip_note nt strip \<noteq> None" by (simp add: strip_note_None)
  moreover from NoteOn assms(3,4) have "strip_note nt strip = strip_note nt target"
    by (auto split: option.splits)
  ultimately show ?thesis by (rule strip_note_inj [rotated])
next
  case (NoteOff channel nt)
  with assms(3) have "strip_note nt strip \<noteq> None" by (simp add: strip_note_None)
  moreover from NoteOff assms(3,4) have "strip_note nt strip = strip_note nt target"
    by (auto split: option.splits)
  ultimately show ?thesis by (rule strip_note_inj [rotated])
next
  case (ControlChange channel controller v)
  with assms(3,4) show ?thesis by (auto split: if_splits)
next
  case (AftertouchChannel channel pressure)
  with assms(3,4) have "push_bit 4 strip OR (pressure AND 0xf) = push_bit 4 target OR (pressure AND 0xf)"
    by (auto split: if_splits)
  then have "drop_bit 4 (push_bit 4 strip OR (pressure AND 0xf)) = drop_bit 4 (push_bit 4 target OR (pressure AND 0xf))"
    by (rule arg_cong)
  then show ?thesis
    unfolding nibble_high [OF assms(1)] nibble_high [OF assms(2)] .
next
  case (PitchBend channel v)
  with assms(3,4) show ?thesis by (auto split: if_splits)
next
  case OtherStatus
  with assms show ?thesis by simp
qed

lemma setStripIndex_slot:
  assumes "supported_shape p"
  shows "\<exists>t\<le>7. setStripIndex p t = Some p"
proof (cases p)
  case (NoteOn channel nt velocity)
  with assms strip_note_None [of nt 0] obtain n where "strip_note nt 0 = Some n" by auto
  from strip_note_class [OF this] obtain B k where
    "B \<in> {32, 0, 8, 16, 24, 104}" "k \<le> 7" "nt = B + k" by blast
  with strip_note_slot_enum [OF strip_le_7 [OF \<open>k \<le> 7\<close>], of k]
  have "strip_note nt k = Some nt" by auto
  with NoteOn assms \<open>k \<le> 7\<close> show ?thesis by (intro exI [of _ k]) simp
next
  case (NoteOff channel nt)
  with assms strip_note_None [of nt 0] obtain n where "strip_note nt 0 = Some n" by auto
  from strip_note_class [OF this] obtain B k where
    "B \<in> {32, 0, 8, 16, 24, 104}" "k \<le> 7" "nt = B + k" by blast
  with strip_note_slot_enum [OF strip_le_7 [OF \<open>k \<le> 7\<close>], of k]
  have "strip_note nt k = Some nt" by auto
  with NoteOff assms \<open>k \<le> 7\<close> show ?thesis by (intro exI [of _ k]) simp
next
  case (ControlChange channel controller v)
  with assms have c: "48 \<le> controller" "controller \<le> 55" "channel = 0" by simp_all
  then have "controller - 48 \<le> 7" by unat_arith
  with c ControlChange show ?thesis by (intro exI [of _ "controller - 48"]) simp
next
  case (AftertouchChannel channel pressure)
  with assms nibble_join [of pressure] show ?thesis
    by (intro exI [of _ "drop_bit 4 pressure"]) (simp add: not_less)
next
  case (PitchBend channel v)
  with assms show ?thesis by (intro exI [of _ channel]) simp
next
  case OtherStatus
  with assms show ?thesis by simp
qed

text \<open>
  C6. For every target strip from 0 to 7: \<open>setStripIndex\<close> returns null exactly for the
  messages that are not of a supported shape (the per-strip note ranges on channel 0, the
  rotary-LED controllers on channel 0, the meter channel-pressure on channel 0 with a strip
  nibble of 0 to 7, the pitch bend on the channels 0 to 7); applied twice with the same
  target it gives what it gives applied once; the result is of a supported shape and is
  retargeted like the original; two different targets give two different messages; and
  every message of a supported shape is its own retargeting to one of the 8 strips. So for
  each supported shape the targets 0 to 7 correspond one to one to the 8 messages of its
  range. Null is returned for a transport-button note, for every note, controller and
  channel-pressure message on a non-zero channel, and for a pitch bend on a channel above 7.
\<close>

theorem setStripIndex_slots:
  assumes "strip \<le> 7" and "target \<le> 7"
  shows "(setStripIndex p strip = None) = (\<not> supported_shape p)
       \<and> (\<forall>q. setStripIndex p strip = Some q \<longrightarrow>
              setStripIndex q strip = Some q \<and> supported_shape q
              \<and> setStripIndex q target = setStripIndex p target)
       \<and> (supported_shape p \<and> setStripIndex p strip = setStripIndex p target \<longrightarrow> strip = target)
       \<and> (supported_shape p \<longrightarrow> (\<exists>t\<le>7. setStripIndex p t = Some p))
       \<and> setStripIndex (NoteOn 0 Transport_Play velocity) strip = None
       \<and> (channel \<noteq> 0 \<longrightarrow>
              setStripIndex (NoteOn channel nt velocity) strip = None
              \<and> setStripIndex (NoteOff channel nt) strip = None
              \<and> setStripIndex (ControlChange channel controller v) strip = None
              \<and> setStripIndex (AftertouchChannel channel pressure) strip = None)
       \<and> (7 < channel \<longrightarrow> setStripIndex (PitchBend channel bend) strip = None)"
proof -
  have idem: "setStripIndex q strip = Some q \<and> supported_shape q
              \<and> setStripIndex q target = setStripIndex p target"
    if q: "setStripIndex p strip = Some q" for q
  proof -
    have "setStripIndex q strip = Some q"
      using setStripIndex_family [OF assms(1) q, of strip] q by simp
    moreover from this have "supported_shape q"
      using setStripIndex_None_iff [of q strip] by simp
    moreover have "setStripIndex q target = setStripIndex p target"
      using assms(1) q by (rule setStripIndex_family)
    ultimately show ?thesis by simp
  qed
  have inj: "strip = target" if "supported_shape p" and "setStripIndex p strip = setStripIndex p target"
    using assms that by (rule setStripIndex_inj)
  have play: "setStripIndex (NoteOn 0 Transport_Play velocity) strip = None"
    by (simp add: strip_note_def)
  have bend: "setStripIndex (PitchBend channel bend) strip = None" if "7 < channel"
    using that by (simp add: not_le)
  show ?thesis
    using setStripIndex_None_iff [of p strip] idem inj setStripIndex_slot [of p] play bend
    by simp
qed

theorem setStripIndex_slots_witness:
  "setStripIndex (NoteOn 0 26 127) 5 = Some (NoteOn 0 29 127)
   \<and> setStripIndex (NoteOn 0 29 127) 5 = Some (NoteOn 0 29 127)
   \<and> setStripIndex (NoteOn 0 29 127) 1 = setStripIndex (NoteOn 0 26 127) 1
   \<and> setStripIndex (NoteOn 0 26 127) 1 \<noteq> setStripIndex (NoteOn 0 26 127) 5
   \<and> setStripIndex (NoteOn 0 26 127) 2 = Some (NoteOn 0 26 127)
   \<and> setStripIndex (NoteOn 0 Transport_Play 127) 5 = None
   \<and> setStripIndex (ControlChange 2 50 0) 5 = None
   \<and> setStripIndex (PitchBend 9 0) 5 = None"
  using setStripIndex_slots [of 5 1 "NoteOn 0 26 127" 127 2 50 50 0 0 0]
  by (simp add: strip_note_def)

section \<open>Properties of the dispatcher\<close>

text \<open>
  C8. For every rotary-LED controller change on channel 0 (controller 48 to 55) whose
  position (the low nibble of the value) is 0, the decoder sets the vpot of the strip to
  mode \<open>Off\<close> with value 0 and the centre flag of bit 6, and calls the rotary-display hook
  with mode \<open>Off\<close> (after the hook for the raw value), whatever the mode bits 4 and 5 are.
\<close>

theorem vpot_led_position_zero:
  assumes "VPot_LED \<le> controller" and "controller \<le> VPot_LED + 7" and "v AND 0x0f = 0"
  shows "dispatchControlChange 0 controller v s =
           ([HandleStripVPotDisplayRaw (unat (controller - VPot_LED)) v,
             HandleStripVPotDisplay (unat (controller - VPot_LED)) Off (v AND 0x40 \<noteq> 0) 0],
            upd_strip (unat (controller - VPot_LED))
              (\<lambda>t. t\<lparr>vpot_mode := Off, vpot_center := (v AND 0x40 \<noteq> 0), vpot_value := 0\<rparr>) s)"
proof -
  have "\<not> controller \<le> Time_Digit + 9 \<or> \<not> Time_Digit \<le> controller"
    using assms(2) by (simp add: word_le_nat_alt)
  then show ?thesis
    using assms by (auto simp add: dispatchControlChange_def set_vpot_def Let_def)
qed

theorem vpot_led_position_zero_witness:
  "vpot_mode (strips (snd (dispatchControlChange 0 50 0x25 begin_state)) 2) = Bar
   \<and> dispatchControlChange 0 50 0x70 (snd (dispatchControlChange 0 50 0x25 begin_state)) =
       ([HandleStripVPotDisplayRaw 2 0x70, HandleStripVPotDisplay 2 Off True 0],
        upd_strip 2 (\<lambda>t. t\<lparr>vpot_mode := Off, vpot_center := True, vpot_value := 0\<rparr>)
          (snd (dispatchControlChange 0 50 0x25 begin_state)))
   \<and> vpot_mode (strips (snd (dispatchControlChange 0 50 0x70
                                (snd (dispatchControlChange 0 50 0x25 begin_state)))) 2) = Off
   \<and> vpot_value (strips (snd (dispatchControlChange 0 50 0x70
                                 (snd (dispatchControlChange 0 50 0x25 begin_state)))) 2) = 0"
proof -
  have b: "dispatchControlChange 0 50 0x25 begin_state =
             ([HandleStripVPotDisplayRaw 2 0x25, HandleStripVPotDisplay 2 Bar False (float32 (5 / 11))],
              upd_strip 2 (\<lambda>t. t\<lparr>vpot_mode := Bar, vpot_center := False, vpot_value := float32 (5 / 11)\<rparr>)
                begin_state)"
    by (simp add: dispatchControlChange_def set_vpot_def Let_def)
  from vpot_led_position_zero [of 50 "0x70" "snd (dispatchControlChange 0 50 0x25 begin_state)"]
  show ?thesis unfolding b by (simp add: upd_strip_def)
qed

text \<open>
  C10. For every accepted meter message (channel 0, strip nibble at most 7): with the low
  nibble 14 or 15 the meter fraction of the strip is left as it was; with the low nibble 0
  to 13 its overload flag is left as it was; and in every case the other strips are
  unchanged.
\<close>

theorem meter_frame:
  assumes "drop_bit 4 pressure \<le> 7"
  shows "(pressure AND 0xf = 14 \<or> pressure AND 0xf = 15 \<longrightarrow>
            meter_fraction (strips (snd (dispatchAftertouchChannel now 0 pressure s)) (unat (drop_bit 4 pressure)))
              = meter_fraction (strips s (unat (drop_bit 4 pressure))))
       \<and> (pressure AND 0xf \<le> 13 \<longrightarrow>
            meter_overload (strips (snd (dispatchAftertouchChannel now 0 pressure s)) (unat (drop_bit 4 pressure)))
              = meter_overload (strips s (unat (drop_bit 4 pressure))))
       \<and> (\<forall>j. j \<noteq> unat (drop_bit 4 pressure) \<longrightarrow>
            strips (snd (dispatchAftertouchChannel now 0 pressure s)) j = strips s j)"
proof -
  have le: "\<not> 7 < drop_bit 4 pressure" using assms by simp
  have c13: "pressure AND 0xf \<le> 13 \<Longrightarrow> pressure AND 0xf \<le> 12 \<or> pressure AND 0xf = 13"
    by (auto simp add: word_le_nat_alt word_unat_eq_iff)
  show ?thesis
    using le c13
    by (auto simp add: dispatchAftertouchChannel_def Let_def split: prod.splits if_splits)
qed

theorem meter_frame_witness:
  "drop_bit 4 (0x3E::u8) \<le> 7 \<and> drop_bit 4 (0x35::u8) \<le> 7
   \<and> meter_fraction (strips (snd (dispatchAftertouchChannel 1000 0 0x3E begin_state)) 3)
       = meter_fraction (strips begin_state 3)
   \<and> meter_overload (strips (snd (dispatchAftertouchChannel 1000 0 0x3E begin_state)) 3)
   \<and> meter_overload (strips (snd (dispatchAftertouchChannel 1000 0 0x35 begin_state)) 3)
       = meter_overload (strips begin_state 3)
   \<and> meter_fraction (strips (snd (dispatchAftertouchChannel 1000 0 0x35 begin_state)) 3)
       = float32 (5 / 12)
   \<and> strips (snd (dispatchAftertouchChannel 1000 0 0x3E begin_state)) 4 = strips begin_state 4"
  using meter_frame [of "0x3E" 1000 begin_state] meter_frame [of "0x35" 1000 begin_state]
  by (simp add: dispatchAftertouchChannel_def Let_def)

text \<open>
  C2 (as amended). A note-on on channel 0 at a transport address (91 to 95) or at the bank
  addresses Flip (50) and Edit (51) sets the matching latch to "velocity is 127" and calls
  the matching button hook. At the bank addresses Previous, Next and PreviousChannel
  (46 to 48), at the modifier addresses (70 to 73) and at the navigation addresses Up,
  Down, Left and Right (96 to 99) it calls the matching button hook and leaves the state as
  it was: these buttons have no latch. At the navigation addresses Zoom and Scrub it calls
  the matching button hook. The marker, utility and automation addresses are ignored: no
  state changes and no hook is called.
\<close>

theorem note_on_buttons:
  "dispatchPacket now (NoteOn 0 Transport_Rewind velocity) s =
     ([HandleTransportButton Rewind (velocity = 127)], s\<lparr>transport_rewind := (velocity = 127)\<rparr>)
   \<and> dispatchPacket now (NoteOn 0 Transport_Forward velocity) s =
     ([HandleTransportButton Forward (velocity = 127)], s\<lparr>transport_forward := (velocity = 127)\<rparr>)
   \<and> dispatchPacket now (NoteOn 0 Transport_Stop velocity) s =
     ([HandleTransportButton Stop (velocity = 127)], s\<lparr>transport_stop := (velocity = 127)\<rparr>)
   \<and> dispatchPacket now (NoteOn 0 Transport_Play velocity) s =
     ([HandleTransportButton Play (velocity = 127)], s\<lparr>transport_play := (velocity = 127)\<rparr>)
   \<and> dispatchPacket now (NoteOn 0 Transport_Record velocity) s =
     ([HandleTransportButton Record (velocity = 127)], s\<lparr>transport_record := (velocity = 127)\<rparr>)
   \<and> dispatchPacket now (NoteOn 0 Bank_Flip velocity) s =
     ([HandleBankButton Flip (velocity = 127)], s\<lparr>bank_flip := (velocity = 127)\<rparr>)
   \<and> dispatchPacket now (NoteOn 0 Bank_Edit velocity) s =
     ([HandleBankButton Edit (velocity = 127)], s\<lparr>bank_edit := (velocity = 127)\<rparr>)
   \<and> list_all (\<lambda>(nt, b). dispatchPacket now (NoteOn 0 nt velocity) s = ([HandleBankButton b (velocity = 127)], s))
        [(Bank_Previous, Previous), (Bank_Next, Next), (Bank_PreviousChannel, PreviousChannel)]
   \<and> list_all (\<lambda>(nt, b). dispatchPacket now (NoteOn 0 nt velocity) s = ([HandleModifierButton b (velocity = 127)], s))
        [(Modifier_Shift, Shift), (Modifier_Option, Option), (Modifier_Control, Control), (Modifier_Alt, Alt)]
   \<and> list_all (\<lambda>(nt, b). dispatchPacket now (NoteOn 0 nt velocity) s = ([HandleNavigationButton b (velocity = 127)], s))
        [(Navigation_Up, Up), (Navigation_Down, Down), (Navigation_Left, Left), (Navigation_Right, Right)]
   \<and> list_all (\<lambda>(nt, b). fst (dispatchPacket now (NoteOn 0 nt velocity) s) = [HandleNavigationButton b (velocity = 127)])
        [(Navigation_Zoom, Zoom), (Navigation_Scrub, Scrub)]
   \<and> list_all (\<lambda>nt. dispatchPacket now (NoteOn 0 nt velocity) s = ([], s))
        [Marker_PreviousFrame, Marker_NextFrame, Marker_Loop, Marker_PointIn, Marker_PointOut,
         Marker_Home, Marker_End,
         Utility_Undo, Utility_Cancel, Utility_Enter, Utility_Redo, Utility_Marker, Utility_Mixer,
         Automation_On, Automation_Record, Automation_Snapshot, Automation_Touch]"
proof -
  have note_on: "dispatchPacket now (NoteOn 0 nt velocity) s = dispatchNote now 0 nt velocity s" for nt
    by simp
  have latched:
    "dispatchNote now 0 Transport_Rewind velocity s =
       ([HandleTransportButton Rewind (velocity = 127)], s\<lparr>transport_rewind := (velocity = 127)\<rparr>)"
    "dispatchNote now 0 Transport_Forward velocity s =
       ([HandleTransportButton Forward (velocity = 127)], s\<lparr>transport_forward := (velocity = 127)\<rparr>)"
    "dispatchNote now 0 Transport_Stop velocity s =
       ([HandleTransportButton Stop (velocity = 127)], s\<lparr>transport_stop := (velocity = 127)\<rparr>)"
    "dispatchNote now 0 Transport_Play velocity s =
       ([HandleTransportButton Play (velocity = 127)], s\<lparr>transport_play := (velocity = 127)\<rparr>)"
    "dispatchNote now 0 Transport_Record velocity s =
       ([HandleTransportButton Record (velocity = 127)], s\<lparr>transport_record := (velocity = 127)\<rparr>)"
    "dispatchNote now 0 Bank_Flip velocity s =
       ([HandleBankButton Flip (velocity = 127)], s\<lparr>bank_flip := (velocity = 127)\<rparr>)"
    "dispatchNote now 0 Bank_Edit velocity s =
       ([HandleBankButton Edit (velocity = 127)], s\<lparr>bank_edit := (velocity = 127)\<rparr>)"
    by (simp_all add: dispatchNote_def Let_def)
  have ignored: "dispatchNote now 0 nt velocity s = ([], s)"
    if "nt \<in> {Marker_PreviousFrame, Marker_NextFrame, Marker_Loop, Marker_PointIn, Marker_PointOut,
         Marker_Home, Marker_End,
         Utility_Undo, Utility_Cancel, Utility_Enter, Utility_Redo, Utility_Marker, Utility_Mixer,
         Automation_On, Automation_Record, Automation_Snapshot, Automation_Touch}" for nt
    using that by (elim insertE emptyE) (simp_all add: dispatchNote_def Let_def)
  show ?thesis
    unfolding note_on latched by (simp add: ignored) (simp add: dispatchNote_def Let_def)
qed

text \<open>
  C2 (as stated) fails: a note-on at the marker address Home, at the utility address Undo
  or at the automation address Touch changes nothing and calls no hook.
\<close>

theorem note_on_buttons_counterexample:
  "dispatchPacket 0 (NoteOn 0 Marker_Home 127) begin_state = ([], begin_state)
   \<and> dispatchPacket 0 (NoteOn 0 Utility_Undo 127) begin_state = ([], begin_state)
   \<and> dispatchPacket 0 (NoteOn 0 Automation_Touch 127) begin_state = ([], begin_state)"
  by (simp add: dispatchNote_def Let_def)

section \<open>Properties of the monitor\<close>

lemma decay_meters_quiet:
  "count_list (fst (decay_meters now xs s)) HandleTimeout = 0
   \<and> active_usec (snd (decay_meters now xs s)) = active_usec s"
  by (induction xs arbitrary: s) (simp_all add: upd_strip_def case_prod_beta)

lemma loop_lapsed:
  assumes "active_usec s \<noteq> 0" and "5000000 < now - active_usec s"
  shows "count_list (fst (loop now s)) HandleTimeout = 1 \<and> active_usec (snd (loop now s)) = 0"
proof -
  have "0 < active_usec s" using assms(1) by (simp add: word_greater_zero_iff)
  with assms(2) decay_meters_quiet [of now "[0..<8]" "s\<lparr>active_usec := 0\<rparr>"]
  show ?thesis by (simp add: loop_def case_prod_beta)
qed

lemma loop_absent:
  assumes "active_usec s = 0"
  shows "count_list (fst (loop now s)) HandleTimeout = 0 \<and> active_usec (snd (loop now s)) = 0"
  using assms decay_meters_quiet [of now "[0..<8]" s]
  by (simp add: loop_def case_prod_beta)

lemma dispatchNote_absent:
  assumes "active_usec s = 0" and "\<not> (channel = 15 \<and> nt = Protocol_Ping)"
  shows "count_list (fst (dispatchNote now channel nt velocity s)) HandleTimeout = 0
       \<and> active_usec (snd (dispatchNote now channel nt velocity s)) = 0"
  using assms by (auto simp add: dispatchNote_def Let_def upd_strip_def)

lemma dispatchNote_ping:
  "dispatchNote now 15 Protocol_Ping velocity s = ([], s\<lparr>active_usec := now\<rparr>)"
  by (simp add: dispatchNote_def)

lemma dispatchControlChange_absent:
  assumes "active_usec s = 0"
  shows "count_list (fst (dispatchControlChange channel controller v s)) HandleTimeout = 0
       \<and> active_usec (snd (dispatchControlChange channel controller v s)) = 0"
  using assms
  by (auto simp add: dispatchControlChange_def set_vpot_def Let_def upd_strip_def reset_def constructed_def
        split: prod.splits)

lemma dispatchAftertouchChannel_absent:
  assumes "active_usec s = 0"
  shows "count_list (fst (dispatchAftertouchChannel now channel pressure s)) HandleTimeout = 0
       \<and> active_usec (snd (dispatchAftertouchChannel now channel pressure s)) = 0"
  using assms
  by (auto simp add: dispatchAftertouchChannel_def Let_def split: prod.splits)

lemma dispatchPitchBend_absent:
  assumes "active_usec s = 0"
  shows "count_list (fst (dispatchPitchBend channel v s)) HandleTimeout = 0
       \<and> active_usec (snd (dispatchPitchBend channel v s)) = 0"
  using assms by (auto simp add: dispatchPitchBend_def Let_def upd_strip_def)

lemma call_absent:
  assumes "active_usec s = 0" and "\<not> heartbeat c"
  shows "count_list (fst (call now c s)) HandleTimeout = 0 \<and> active_usec (snd (call now c s)) = 0"
proof (cases c)
  case Loop
  with assms(1) show ?thesis by (simp add: loop_absent)
next
  case (DispatchPacket p)
  show ?thesis
  proof (cases p)
    case (NoteOn channel nt velocity)
    with DispatchPacket assms show ?thesis by (simp add: dispatchNote_absent)
  next
    case (NoteOff channel nt)
    with DispatchPacket assms show ?thesis by (simp add: dispatchNote_absent)
  next
    case (ControlChange channel controller v)
    with DispatchPacket assms(1) show ?thesis by (simp add: dispatchControlChange_absent)
  next
    case (AftertouchChannel channel pressure)
    with DispatchPacket assms(1) show ?thesis by (simp add: dispatchAftertouchChannel_absent)
  next
    case (PitchBend channel v)
    with DispatchPacket assms(1) show ?thesis by (simp add: dispatchPitchBend_absent)
  next
    case OtherStatus
    with DispatchPacket assms(1) show ?thesis by simp
  qed
qed

lemma run_absent:
  assumes "active_usec s = 0" and "list_all (\<lambda>c. \<not> heartbeat (snd c)) later"
  shows "count_list (fst (run later s)) HandleTimeout = 0 \<and> active_usec (snd (run later s)) = 0"
  using assms
proof (induction later arbitrary: s)
  case Nil
  then show ?case by simp
next
  case (Cons x later)
  obtain now c where x: "x = (now, c)" by (cases x)
  from Cons.prems x have c: "\<not> heartbeat c" and rest: "list_all (\<lambda>c. \<not> heartbeat (snd c)) later"
    by simp_all
  from call_absent [OF Cons.prems(1) c, of now]
  have q: "count_list (fst (call now c s)) HandleTimeout = 0" "active_usec (snd (call now c s)) = 0"
    by simp_all
  from Cons.IH [OF q(2) rest] q(1) x show ?case
    by (simp add: case_prod_beta)
qed

lemma run_append:
  "run (xs @ ys) s = (case run xs s of (evs, s') \<Rightarrow> (case run ys s' of (evs', s'') \<Rightarrow> (evs @ evs', s'')))"
  by (induction xs arbitrary: s) (auto simp add: case_prod_beta)

lemma loop_early:
  assumes "now - active_usec s \<le> 5000000"
  shows "count_list (fst (loop now s)) HandleTimeout = 0
       \<and> active_usec (snd (loop now s)) = active_usec s"
proof -
  have "\<not> 5000000 < now - active_usec s" using assms by simp
  with decay_meters_quiet [of now "[0..<8]" s]
  show ?thesis by (simp add: loop_def case_prod_beta)
qed

lemma run_ping_loop:
  "fst (run [(t, DispatchPacket (NoteOn 15 Protocol_Ping velocity)), (now, Loop)] s)
     = fst (loop now (s\<lparr>active_usec := t\<rparr>))"
  by (simp add: dispatchNote_ping case_prod_beta)

text \<open>
  C9, at a heartbeat note that arrives when the clock reads 0. The heartbeat state is the
  clock reading itself, and \<open>loop()\<close> takes a reading of 0 for ``no heartbeat'': the note
  stores 0 and is lost. In the first run a heartbeat lapses and the hook is called once;
  then the clock wraps, a new heartbeat note arrives at the reading 0, and 6 seconds later
  \<open>loop()\<close> is called: the new heartbeat has lapsed, and the hook is not called a second
  time. In the second run the same note arrives one microsecond later, and the hook is
  called a second time. In the third run the note at the reading 0 is the first one. The
  last two runs show the window of a heartbeat at the reading 1: \<open>loop()\<close> is silent
  when exactly 5 seconds have elapsed, and calls the hook one microsecond later.
\<close>

theorem heartbeat_lost_at_zero:
  "count_list (fst (run [(4289000000, DispatchPacket (NoteOn 15 Protocol_Ping 127)),
                         (4294500000, Loop),
                         (0, DispatchPacket (NoteOn 15 Protocol_Ping 127)),
                         (6000000, Loop)] begin_state)) HandleTimeout = 1
   \<and> count_list (fst (run [(4289000000, DispatchPacket (NoteOn 15 Protocol_Ping 127)),
                           (4294500000, Loop),
                           (1, DispatchPacket (NoteOn 15 Protocol_Ping 127)),
                           (6000000, Loop)] begin_state)) HandleTimeout = 2
   \<and> run [(0, DispatchPacket (NoteOn 15 Protocol_Ping 127)), (6000000, Loop)] begin_state
       = ([], begin_state)
   \<and> run [(1, DispatchPacket (NoteOn 15 Protocol_Ping 127)), (5000001, Loop)] begin_state
       = ([], begin_state\<lparr>active_usec := 1\<rparr>)
   \<and> run [(1, DispatchPacket (NoteOn 15 Protocol_Ping 127)), (5000002, Loop)] begin_state
       = ([HandleTimeout], begin_state)"
proof -
  let ?ping = "DispatchPacket (NoteOn 15 Protocol_Ping 127)"
  let ?s1 = "begin_state\<lparr>active_usec := 4289000000\<rparr>"
  have quiet: "decay_meters now [0..<8] (begin_state\<lparr>active_usec := a\<rparr>)
                 = ([], begin_state\<lparr>active_usec := a\<rparr>)" for now a
    by (simp add: upt_rec begin_state_def reset_def constructed_def zero_strip_def)
  have z: "begin_state\<lparr>active_usec := 0\<rparr> = begin_state"
    by (simp add: begin_state_def reset_def constructed_def)
  have l1: "loop 4294500000 ?s1 = ([HandleTimeout], begin_state)"
    using quiet [of 4294500000 0] by (simp add: loop_def z)
  have l0: "loop 6000000 begin_state = ([], begin_state)"
    using quiet [of 6000000 0] by (simp add: loop_def z begin_state_def reset_def constructed_def)
  have l2: "loop 6000000 (begin_state\<lparr>active_usec := 1\<rparr>) = ([HandleTimeout], begin_state)"
    using quiet [of 6000000 0] by (simp add: loop_def z)
  have l3: "loop 5000001 (begin_state\<lparr>active_usec := 1\<rparr>) = ([], begin_state\<lparr>active_usec := 1\<rparr>)"
    using quiet [of 5000001 1] by (simp add: loop_def)
  have l4: "loop 5000002 (begin_state\<lparr>active_usec := 1\<rparr>) = ([HandleTimeout], begin_state)"
    using quiet [of 5000002 0] by (simp add: loop_def z)
  show ?thesis
    by (simp add: dispatchNote_ping l1 l0 l2 l3 l4 z)
qed

text \<open>
  The property of C9 for every heartbeat note that arrives at a clock reading other than
  0. A heartbeat is recorded when \<open>_active_usec\<close> is not zero; the time elapsed since is
  the wrapping difference of the clock readings. While at most 5 seconds have elapsed,
  \<open>loop()\<close> does not call the timeout hook and keeps the heartbeat. If a heartbeat is
  recorded and more than 5 seconds have elapsed, \<open>loop()\<close> calls the timeout hook exactly
  once and clears the heartbeat; over that call and any later calls of \<open>loop()\<close> and
  \<open>dispatchPacket()\<close> that are not a heartbeat note the hook is called exactly once in all,
  and the heartbeat stays clear. A heartbeat note (channel 15, ping address) stores the
  clock reading \<open>t\<close>; a \<open>loop()\<close> at most 5 seconds after it does not call the hook again;
  when \<open>t\<close> is not zero, the next \<open>loop()\<close> more than 5 seconds after it calls the hook a
  second time; when \<open>t\<close> is zero, it does not.
\<close>

theorem heartbeat_timeout_once:
  assumes "active_usec s \<noteq> 0" and "5000000 < now - active_usec s"
    and "list_all (\<lambda>c. \<not> heartbeat (snd c)) later"
  shows "count_list (fst (loop now s)) HandleTimeout = 1
       \<and> active_usec (snd (loop now s)) = 0
       \<and> count_list (fst (run ((now, Loop) # later) s)) HandleTimeout = 1
       \<and> active_usec (snd (run ((now, Loop) # later) s)) = 0
       \<and> active_usec (snd (dispatchPacket t (NoteOn 15 Protocol_Ping velocity) s)) = t
       \<and> (early - active_usec s \<le> 5000000 \<longrightarrow>
            count_list (fst (loop early s)) HandleTimeout = 0
            \<and> active_usec (snd (loop early s)) = active_usec s)
       \<and> (now' - t \<le> 5000000 \<longrightarrow>
            count_list (fst (run ((now, Loop) # later
                                  @ [(t, DispatchPacket (NoteOn 15 Protocol_Ping velocity)), (now', Loop)]) s))
              HandleTimeout = 1)
       \<and> (t \<noteq> 0 \<and> 5000000 < now' - t \<longrightarrow>
            count_list (fst (run ((now, Loop) # later
                                  @ [(t, DispatchPacket (NoteOn 15 Protocol_Ping velocity)), (now', Loop)]) s))
              HandleTimeout = 2)
       \<and> (t = 0 \<longrightarrow>
            count_list (fst (run ((now, Loop) # later
                                  @ [(t, DispatchPacket (NoteOn 15 Protocol_Ping velocity)), (now', Loop)]) s))
              HandleTimeout = 1)"
proof -
  let ?ping = "DispatchPacket (NoteOn 15 Protocol_Ping velocity)"
  let ?s1 = "snd (loop now s)"
  let ?s2 = "snd (run later ?s1)"
  let ?s3 = "?s2\<lparr>active_usec := t\<rparr>"
  let ?all = "run ((now, Loop) # later @ [(t, ?ping), (now', Loop)]) s"
  have first: "count_list (fst (loop now s)) HandleTimeout = 1" "active_usec ?s1 = 0"
    using loop_lapsed [OF assms(1,2)] by simp_all
  have quiet: "count_list (fst (run later ?s1)) HandleTimeout = 0" "active_usec ?s2 = 0"
    using run_absent [OF first(2) assms(3)] by simp_all
  have whole: "fst (run ((now, Loop) # later) s) = fst (loop now s) @ fst (run later ?s1)"
    "snd (run ((now, Loop) # later) s) = ?s2"
    by (simp_all add: case_prod_beta)
  have "fst (run (((now, Loop) # later) @ [(t, ?ping), (now', Loop)]) s)
          = (fst (loop now s) @ fst (run later ?s1)) @ fst (loop now' ?s3)"
    unfolding run_append by (simp only: case_prod_beta fst_conv snd_conv whole run_ping_loop)
  then have total: "count_list (fst ?all) HandleTimeout
                      = 1 + count_list (fst (loop now' ?s3)) HandleTimeout"
    using first(1) quiet(1) by simp
  have silent: "count_list (fst ?all) HandleTimeout = 1" if "now' - t \<le> 5000000"
    unfolding total using loop_early [of now' ?s3] that by simp
  have twice: "count_list (fst ?all) HandleTimeout = 2" if "t \<noteq> 0" and "5000000 < now' - t"
    unfolding total using loop_lapsed [of ?s3 now'] that by simp
  have lost: "count_list (fst ?all) HandleTimeout = 1" if "t = 0"
    unfolding total using loop_absent [of ?s3 now'] that by simp
  have stored: "active_usec (snd (dispatchPacket t (NoteOn 15 Protocol_Ping velocity) s)) = t"
    by (simp add: dispatchNote_ping)
  have early: "count_list (fst (loop early s)) HandleTimeout = 0
               \<and> active_usec (snd (loop early s)) = active_usec s"
    if "early - active_usec s \<le> 5000000"
    using that by (rule loop_early)
  from first quiet whole stored early silent twice lost show ?thesis by simp
qed

theorem heartbeat_timeout_once_witness:
  "active_usec (snd (dispatchPacket 1000 (NoteOn 15 Protocol_Ping 90) begin_state)) = 1000
   \<and> count_list (fst (loop 5001000 (snd (dispatchPacket 1000 (NoteOn 15 Protocol_Ping 90) begin_state))))
       HandleTimeout = 0
   \<and> count_list (fst (run [(6000000, Loop), (6000001, Loop), (6000002, DispatchPacket (NoteOn 0 94 127)),
                           (12000000, Loop)]
                      (snd (dispatchPacket 1000 (NoteOn 15 Protocol_Ping 90) begin_state)))) HandleTimeout = 1
   \<and> count_list (fst (run [(6000000, Loop), (6000001, Loop), (6000002, DispatchPacket (NoteOn 0 94 127)),
                           (12000000, Loop),
                           (13000000, DispatchPacket (NoteOn 15 Protocol_Ping 90)), (18000000, Loop)]
                      (snd (dispatchPacket 1000 (NoteOn 15 Protocol_Ping 90) begin_state)))) HandleTimeout = 1
   \<and> count_list (fst (run [(6000000, Loop), (6000001, Loop), (6000002, DispatchPacket (NoteOn 0 94 127)),
                           (12000000, Loop),
                           (13000000, DispatchPacket (NoteOn 15 Protocol_Ping 90)), (19000000, Loop)]
                      (snd (dispatchPacket 1000 (NoteOn 15 Protocol_Ping 90) begin_state)))) HandleTimeout = 2"
  using heartbeat_timeout_once [of "snd (dispatchPacket 1000 (NoteOn 15 Protocol_Ping 90) begin_state)"
      6000000 "[(6000001, Loop), (6000002, DispatchPacket (NoteOn 0 94 127)), (12000000, Loop)]"
      13000000 90 5001000 18000000]
    heartbeat_timeout_once [of "snd (dispatchPacket 1000 (NoteOn 15 Protocol_Ping 90) begin_state)"
      6000000 "[(6000001, Loop), (6000002, DispatchPacket (NoteOn 0 94 127)), (12000000, Loop)]"
      13000000 90 5001000 19000000]
  by (simp add: dispatchNote_ping)

section \<open>Properties of the display reassembler\<close>

lemma dispatchSystemExclusive_long:
  assumes len: "8 \<le> length buffer"
  shows "dispatchSystemExclusive g buffer s =
     (if take 3 (drop 1 buffer) \<noteq> Vendor then Inr ([], s)
      else if buffer ! 4 \<noteq> Device_Control \<and> buffer ! 4 \<noteq> Device_ControlXT then Inr ([], s)
      else if buffer ! 5 = Type_Display then
        (if 112 < (unat (buffer ! 6) + (length buffer - 8)) mod 2 ^ 32 then Inr ([], s)
         else if 112 < unat (buffer ! 6) + (length buffer - 8) then Inl OutOfBounds
         else display_frame g (unat (buffer ! 6)) (length buffer - 8) (drop 7 buffer) s)
      else Inr ([], s))"
proof -
  have idx: "drop 1 buffer ! 3 = buffer ! 4" "drop 1 buffer ! 4 = buffer ! 5"
    "drop 1 (drop 5 (drop 1 buffer)) = drop 7 buffer" "drop 5 (drop 1 buffer) ! 0 = buffer ! 6"
    using len by simp_all
  have sub: "length buffer - 2 - 5 - 1 = length buffer - 8" by simp
  have a: "\<not> length buffer < 1 + 5 + 1 + 1" "\<not> length buffer < 1 + 1" using len by simp_all
  show ?thesis
    unfolding dispatchSystemExclusive_def Let_def idx sub if_not_P [OF a(1)] if_not_P [OF a(2)]
    by (rule refl)
qed

lemma block_split: "b \<noteq> c \<Longrightarrow> b mod 8 \<noteq> c mod 8 \<or> b div 8 \<noteq> c div (8::nat)"
  by (metis div_mult_mod_eq)

lemma cache_of_upd:
  "cache_of (upd_strip (b mod 8) (\<lambda>t. t\<lparr>display := (display t)(b div 8 := x)\<rparr>) s) c =
     (if c = b then x else cache_of s c)"
  using block_split [of c b] by (auto simp add: cache_of_def upd_strip_def)

lemma cache_of_upd_vpot:
  "cache_of (upd_strip i (\<lambda>t. t\<lparr>vpot_mode := m, vpot_center := c\<rparr>) s) b = cache_of s b"
  by (simp add: cache_of_def upd_strip_def)

lemma beyond_cache_upd:
  "beyond_cache (strips (upd_strip i (\<lambda>t. t\<lparr>display := d t\<rparr>) s) k) = beyond_cache (strips s k)"
  by (simp add: beyond_cache_def upd_strip_def)

lemma text_of_upd: "text_of (upd_strip i f s) c = text_of s c"
  by (simp add: text_of_def block_text_def upd_strip_def)

lemma display_strip_upd: "display_strip (upd_strip i f s) = display_strip s"
  by (simp add: upd_strip_def)

lemma notify_blocks_step:
  assumes "b < 16"
  shows "notify_blocks g (b # rest) s =
     (if text_of s b = cache_of s b then notify_blocks g rest s
      else (case notify_blocks g rest
                   (upd_strip (b mod 8) (\<lambda>t. t\<lparr>display := (display t)(b div 8 := text_of s b)\<rparr>) s)
            of Inl f \<Rightarrow> Inl f
             | Inr (evs, s') \<Rightarrow> Inr (HandleStripDisplay (g (b div 8)) (b mod 8) (b div 8) # evs, s')))"
proof -
  have "\<not> 2 \<le> b div 8" using assms by arith
  then show ?thesis by (simp add: Let_def text_of_def cache_of_def)
qed

lemma notify_blocks_beyond:
  "notify_blocks g (16 # rest) s =
     (if beyond_display = beyond_cache (strips s 0) then notify_blocks g rest s
      else (case notify_blocks g rest (upd_strip 0 (\<lambda>t. t\<lparr>vpot_mode := Off, vpot_center := False\<rparr>) s)
            of Inl f \<Rightarrow> Inl f
             | Inr (evs, s') \<Rightarrow> Inr (HandleStripDisplay (g 2) 0 2 # evs, s')))"
  by simp

text \<open>
  The loop over a list of distinct ranges up to 16: it returns, it notifies the ranges
  that differ from their cache (for the range 16, the members beyond the arrays) in the
  order of the list, it leaves the display buffer as it is, and afterwards the cache of
  every range of the list below 16 holds the content of the display buffer.
\<close>

lemma notify_blocks_result:
  assumes "distinct bs" and "\<forall>b\<in>set bs. b \<le> 16"
  shows "\<exists>s'. notify_blocks g bs s =
            Inr (map (\<lambda>b. HandleStripDisplay (g (b div 8)) (b mod 8) (b div 8))
                   (filter (\<lambda>b. if b = 16 then beyond_display \<noteq> beyond_cache (strips s 0)
                                else text_of s b \<noteq> cache_of s b) bs), s')
          \<and> display_strip s' = display_strip s
          \<and> (\<forall>b. cache_of s' b = (if b \<in> set bs \<and> b \<noteq> 16 then text_of s b else cache_of s b))"
  using assms
proof (induction bs arbitrary: s)
  case Nil
  then show ?case by simp
next
  case (Cons b bs)
  let ?R = "\<lambda>s b. if b = 16 then beyond_display \<noteq> beyond_cache (strips s 0)
                   else text_of s b \<noteq> cache_of s b"
  let ?ev = "\<lambda>b. HandleStripDisplay (g (b div 8)) (b mod 8) (b div 8)"
  from Cons.prems have b: "b \<le> 16" "b \<notin> set bs" and rest: "distinct bs" "\<forall>b\<in>set bs. b \<le> 16"
    by auto
  have ih: "\<exists>s'. notify_blocks g bs s2 = Inr (map ?ev (filter (?R s2) bs), s')
          \<and> display_strip s' = display_strip s2
          \<and> (\<forall>c. cache_of s' c = (if c \<in> set bs \<and> c \<noteq> 16 then text_of s2 c else cache_of s2 c))" for s2
    by (rule Cons.IH [OF rest])
  show ?case
  proof (cases "?R s b")
    case False
    from ih [of s] obtain s' where
      s': "notify_blocks g bs s = Inr (map ?ev (filter (?R s) bs), s')"
        "display_strip s' = display_strip s"
        "\<forall>c. cache_of s' c = (if c \<in> set bs \<and> c \<noteq> 16 then text_of s c else cache_of s c)"
      by blast
    have skip: "notify_blocks g (b # bs) s = notify_blocks g bs s"
    proof (cases "b = 16")
      case True
      with False show ?thesis unfolding True notify_blocks_beyond by simp
    next
      case b16: False
      with b(1) have "b < 16" by simp
      from notify_blocks_step [OF this] False b16 show ?thesis by simp
    qed
    have cache: "\<forall>c. cache_of s' c = (if c \<in> set (b # bs) \<and> c \<noteq> 16 then text_of s c else cache_of s c)"
      using s'(3) False by auto
    have "filter (?R s) (b # bs) = filter (?R s) bs" using False by simp
    with skip s'(1,2) cache show ?thesis by (intro exI [of _ s']) (simp only: simp_thms)
  next
    case True
    show ?thesis
    proof (cases "b = 16")
      case b16: True
      let ?s2 = "upd_strip 0 (\<lambda>t. t\<lparr>vpot_mode := Off, vpot_center := False\<rparr>) s"
      from ih [of ?s2] obtain s' where
        s': "notify_blocks g bs ?s2 = Inr (map ?ev (filter (?R ?s2) bs), s')"
          "display_strip s' = display_strip ?s2"
          "\<forall>c. cache_of s' c = (if c \<in> set bs \<and> c \<noteq> 16 then text_of ?s2 c else cache_of ?s2 c)"
        by blast
      have same: "filter (?R ?s2) bs = filter (?R s) bs"
        using b(2) b16 by (intro filter_cong) (auto simp add: cache_of_upd_vpot text_of_upd)
      have cache: "\<forall>c. cache_of s' c = (if c \<in> set (b # bs) \<and> c \<noteq> 16 then text_of s c else cache_of s c)"
        using s'(3) b16 by (auto simp add: cache_of_upd_vpot text_of_upd)
      have strip: "display_strip s' = display_strip s"
        using s'(2) by (simp add: display_strip_upd)
      have step: "notify_blocks g (b # bs) s = Inr (?ev b # map ?ev (filter (?R s) bs), s')"
        using True s'(1) unfolding b16 notify_blocks_beyond same by simp
      have "filter (?R s) (b # bs) = b # filter (?R s) bs" using True by simp
      with step strip cache show ?thesis by (intro exI [of _ s']) (simp only: list.map simp_thms)
    next
      case b16: False
      with b(1) have lt: "b < 16" by simp
      let ?s2 = "upd_strip (b mod 8) (\<lambda>t. t\<lparr>display := (display t)(b div 8 := text_of s b)\<rparr>) s"
      from ih [of ?s2] obtain s' where
        s': "notify_blocks g bs ?s2 = Inr (map ?ev (filter (?R ?s2) bs), s')"
          "display_strip s' = display_strip ?s2"
          "\<forall>c. cache_of s' c = (if c \<in> set bs \<and> c \<noteq> 16 then text_of ?s2 c else cache_of ?s2 c)"
        by blast
      have same: "filter (?R ?s2) bs = filter (?R s) bs"
        using b(2) by (intro filter_cong) (auto simp add: cache_of_upd text_of_upd beyond_cache_upd)
      have cache: "\<forall>c. cache_of s' c = (if c \<in> set (b # bs) \<and> c \<noteq> 16 then text_of s c else cache_of s c)"
        using s'(3) b(2) b16 by (auto simp add: cache_of_upd text_of_upd)
      have strip: "display_strip s' = display_strip s"
        using s'(2) by (simp add: display_strip_upd)
      have step: "notify_blocks g (b # bs) s = Inr (?ev b # map ?ev (filter (?R s) bs), s')"
        using True b16 s'(1) unfolding notify_blocks_step [OF lt] same by simp
      have "filter (?R s) (b # bs) = b # filter (?R s) bs" using True by simp
      with step strip cache show ?thesis by (intro exI [of _ s']) (simp only: list.map simp_thms)
    qed
  qed
qed

lemma display_events_count:
  assumes "distinct bs"
  shows "length (filter (is_display_event (b mod 8) (b div 8))
           (map (\<lambda>b. HandleStripDisplay (g (b div 8)) (b mod 8) (b div 8)) (filter R bs)))
         = (if b \<in> set bs \<and> R b then 1 else 0)"
proof -
  have "filter (is_display_event (b mod 8) (b div 8))
           (map (\<lambda>b. HandleStripDisplay (g (b div 8)) (b mod 8) (b div 8)) (filter R bs))
        = map (\<lambda>b. HandleStripDisplay (g (b div 8)) (b mod 8) (b div 8)) (filter (\<lambda>c. c = b \<and> R c) bs)"
    using block_split [of _ b] by (auto simp add: filter_map comp_def intro!: arg_cong [of _ _ "map _"] filter_cong)
  moreover have "length (filter (\<lambda>c. c = b \<and> R c) bs) = (if b \<in> set bs \<and> R b then 1 else 0)"
    using assms by (induction bs) auto
  ultimately show ?thesis by simp
qed

text \<open>
  C3. A display frame is well formed when it has the vendor prefix, a unit id of 20 or 21,
  the display type, and \<open>start + length \<le> 112\<close>. For every such frame, in every state of
  the codec, the call returns, the display buffer holds the text of the frame at \<open>start\<close>,
  and for each 7-character range \<open>b\<close> touched by \<open>[start, start + length)\<close>: the cache of
  its strip and row holds the new content afterwards, and the number of display-changed
  notifications for its strip and row is 0 when the new content equals the content cached
  before, and 1 when it differs. That includes the frames that end where the display
  buffer ends, for which the loop has one more pass, over the members that follow the
  arrays.
\<close>

theorem display_frame_notifications:
  assumes "8 \<le> length buffer" and "take 3 (drop 1 buffer) = [0x00, 0x00, 0x66]"
    and "buffer ! 4 = 20 \<or> buffer ! 4 = 21" and "buffer ! 5 = 18"
    and "unat (buffer ! 6) + (length buffer - 8) \<le> 112"
  shows "\<exists>evs s'. dispatchSystemExclusive beyond_global buffer s = Inr (evs, s')
           \<and> display_strip s' =
                 (\<lambda>k. if unat (buffer ! 6) \<le> k \<and> k < unat (buffer ! 6) + (length buffer - 8)
                      then drop 7 buffer ! (k - unat (buffer ! 6)) else display_strip s k)
           \<and> (\<forall>b. unat (buffer ! 6) < 7 * b + 7 \<and> 7 * b < unat (buffer ! 6) + (length buffer - 8) \<longrightarrow>
                  cache_of s' b = text_of s' b
                  \<and> length (filter (is_display_event (b mod 8) (b div 8)) evs)
                      = (if text_of s' b = cache_of s b then 0 else 1))"
proof -
  let ?start = "unat (buffer ! 6)"
  let ?l = "length buffer - 8"
  let ?p = "drop 7 buffer"
  let ?s1 = "s\<lparr>display_strip := (\<lambda>k. if ?start \<le> k \<and> k < ?start + ?l then ?p ! (k - ?start)
                                      else display_strip s k)\<rparr>"
  let ?first = "?start div 7"
  let ?last = "(?start + ?l) div 7"
  let ?bs = "map (\<lambda>i. ?first + i) [0..<1 + (?last - ?first)]"
  let ?R = "\<lambda>b. if b = 16 then beyond_display \<noteq> beyond_cache (strips ?s1 0)
                 else text_of ?s1 b \<noteq> cache_of ?s1 b"
  obtain g where g: "display_frame beyond_global ?start ?l ?p s = notify_blocks g ?bs ?s1"
    by (simp add: display_frame_def Let_def)
  have mod: "(?start + ?l) mod 2 ^ 32 = ?start + ?l" using assms(5) by simp
  have run: "dispatchSystemExclusive beyond_global buffer s = notify_blocks g ?bs ?s1"
    unfolding dispatchSystemExclusive_long [OF assms(1)] mod g [symmetric]
    using assms(2-5) by auto
  have bs: "?bs = [?first..<?last + 1]"
  proof -
    have "?first \<le> ?last" by (intro div_le_mono) simp
    then have "[?first..<?last + 1] = map (\<lambda>i. i + ?first) [0..<1 + (?last - ?first)]"
      by (simp add: map_add_upt)
    then show ?thesis by (simp add: add.commute)
  qed
  have d: "distinct ?bs" unfolding bs by simp
  have small: "\<forall>b\<in>set ?bs. b \<le> 16" unfolding bs using assms(5) by auto
  from notify_blocks_result [OF d small, of g ?s1] obtain s' where
    s': "notify_blocks g ?bs ?s1 =
            Inr (map (\<lambda>b. HandleStripDisplay (g (b div 8)) (b mod 8) (b div 8)) (filter ?R ?bs), s')"
        "display_strip s' = display_strip ?s1"
        "\<forall>b. cache_of s' b = (if b \<in> set ?bs \<and> b \<noteq> 16 then text_of ?s1 b else cache_of ?s1 b)"
    by blast
  have same_text: "text_of s' b = text_of ?s1 b" for b
    using s'(2) by (simp add: text_of_def block_text_def)
  have old: "cache_of ?s1 b = cache_of s b" for b
    by (simp add: cache_of_def)
  have touched: "b \<in> set ?bs \<and> b \<noteq> 16" if "?start < 7 * b + 7" and "7 * b < ?start + ?l" for b
  proof -
    from that have "?first \<le> b" "b \<le> ?last" by arith+
    moreover from that(2) assms(5) have "b \<noteq> 16" by arith
    ultimately show ?thesis unfolding bs by auto
  qed
  have "cache_of s' b = text_of s' b
        \<and> length (filter (is_display_event (b mod 8) (b div 8))
             (map (\<lambda>b. HandleStripDisplay (g (b div 8)) (b mod 8) (b div 8)) (filter ?R ?bs)))
            = (if text_of s' b = cache_of s b then 0 else 1)"
    if "?start < 7 * b + 7" and "7 * b < ?start + ?l" for b
    unfolding display_events_count [OF d] using touched [OF that] s'(3) by (simp add: same_text old)
  moreover have "display_strip s' =
                 (\<lambda>k. if ?start \<le> k \<and> k < ?start + ?l then ?p ! (k - ?start) else display_strip s k)"
    using s'(2) by simp
  ultimately show ?thesis using run s'(1) by auto
qed

lemma last_block_frame:
  "dispatchSystemExclusive g
     [0xf0, 0x00, 0x00, 0x66, 20, 18, 105, 0x41, 0x42, 0x43, 0x44, 0x45, 0x46, 0x20, 0xf7] begin_state
   = Inr ([HandleStripDisplay False 7 1],
          upd_strip 7 (\<lambda>t. t\<lparr>display := (display t)(1 := [0x41, 0x42, 0x43, 0x44, 0x45, 0x46, 0x20])\<rparr>)
            (begin_state\<lparr>display_strip :=
               (\<lambda>k. if 105 \<le> k \<and> k < 105 + 7
                    then [0x41, 0x42, 0x43, 0x44, 0x45, 0x46, 0x20, 0xf7] ! (k - 105)
                    else display_strip begin_state k)\<rparr>))"
proof -
  have u: "[0..<2] = [0, 1]" by (simp add: upt_rec)
  have rep: "replicate 7 (0::u8) = [0, 0, 0, 0, 0, 0, 0]"
    by (simp add: numeral_eq_Suc)
  have t: "block_text s 7 (Suc 0) = map (display_strip s) [105, 106, 107, 108, 109, 110, 111]" for s
    by (simp add: block_text_def upt_rec)
  have e8: "[8..<16] = [8, 9, 10, 11, 12, 13, 14, 15]" "[0..<8] = [0, 1, 2, 3, 4, 5, 6, 7]"
    by (simp_all add: upt_rec)
  have b1: "display_strip begin_state k = 0x20" for k
    by (simp add: begin_state_def reset_def constructed_def)
  have b2: "strips begin_state i = zero_strip" for i
    by (simp add: begin_state_def reset_def constructed_def)
  show ?thesis
    by (simp add: dispatchSystemExclusive_def display_frame_def Let_def u t rep e8
        beyond_display_def beyond_cache_def b1 b2 zero_strip_def upd_strip_def)
qed

theorem display_frame_notifications_witness:
  "\<exists>evs s'. dispatchSystemExclusive False
       [0xf0, 0x00, 0x00, 0x66, 20, 18, 105, 0x41, 0x42, 0x43, 0x44, 0x45, 0x46, 0x20, 0xf7] begin_state
         = Inr (evs, s')
     \<and> evs = [HandleStripDisplay False 7 1]
     \<and> text_of s' 15 = [0x41, 0x42, 0x43, 0x44, 0x45, 0x46, 0x20]
     \<and> cache_of s' 15 = [0x41, 0x42, 0x43, 0x44, 0x45, 0x46, 0x20]
     \<and> length (filter (is_display_event 7 1) evs) = 1"
proof -
  let ?F = "[0xf0, 0x00, 0x00, 0x66, 20, 18, 105, 0x41, 0x42, 0x43, 0x44, 0x45, 0x46, 0x20, 0xf7] :: u8 list"
  have h: "8 \<le> length ?F" "take 3 (drop 1 ?F) = [0x00, 0x00, 0x66]" "?F ! 4 = 20 \<or> ?F ! 4 = 21"
    "?F ! 5 = 18" "unat (?F ! 6) + (length ?F - 8) \<le> 112"
    by simp_all
  have s6: "unat (?F ! 6) = 105" and l: "length ?F - 8 = 7" by simp_all
  note th = display_frame_notifications [OF h, of False begin_state, unfolded s6 l]
  obtain evs s' where
    r: "dispatchSystemExclusive False ?F begin_state = Inr (evs, s')"
    and d: "display_strip s' = (\<lambda>k. if 105 \<le> k \<and> k < 105 + 7 then drop 7 ?F ! (k - 105) else display_strip begin_state k)"
    and a: "\<forall>b. 105 < 7 * b + 7 \<and> 7 * b < 105 + 7 \<longrightarrow>
                  cache_of s' b = text_of s' b
                  \<and> length (filter (is_display_event (b mod 8) (b div 8)) evs)
                      = (if text_of s' b = cache_of begin_state b then 0 else 1)"
    using th by (elim exE conjE) (rule that)
  have t: "text_of s' 15 = [0x41, 0x42, 0x43, 0x44, 0x45, 0x46, 0x20]"
    by (simp add: text_of_def block_text_def d upt_rec)
  have rep: "replicate 7 (0::u8) = [0, 0, 0, 0, 0, 0, 0]"
    by (simp add: numeral_eq_Suc)
  have c: "cache_of begin_state 15 = [0, 0, 0, 0, 0, 0, 0]"
    by (simp add: cache_of_def begin_state_def reset_def constructed_def zero_strip_def rep)
  from a [rule_format, of 15] have "cache_of s' 15 = text_of s' 15"
    and "length (filter (is_display_event 7 1) evs) = 1"
    unfolding t c by simp_all
  moreover from r have "evs = [HandleStripDisplay False 7 1]"
    unfolding last_block_frame by simp
  ultimately show ?thesis using r t by simp
qed

text \<open>
  C4. A frame is malformed when it is shorter than the 8 bytes of the shortest frame, when
  its bytes 1 to 3 are not the vendor prefix \<open>00 00 66\<close>, when its unit-id byte is neither
  20 nor 21, or when it is a display frame whose start offset plus text length exceeds the
  112 bytes of the buffer. \<open>dispatchSystemExclusive\<close> leaves the state of the codec as it
  was and emits no notification for it. The length of the frame is a \<open>uint32_t\<close>; the first
  hypothesis says that the sum of the start offset and the text length does not wrap.
\<close>

theorem malformed_frame_dropped:
  assumes "length buffer + 255 < 2 ^ 32"
    and "length buffer < 8
         \<or> take 3 (drop 1 buffer) \<noteq> [0x00, 0x00, 0x66]
         \<or> (buffer ! 4 \<noteq> 20 \<and> buffer ! 4 \<noteq> 21)
         \<or> (buffer ! 5 = 18 \<and> 112 < unat (buffer ! 6) + (length buffer - 8))"
  shows "dispatchSystemExclusive beyond_global buffer s = Inr ([], s)"
proof (cases "length buffer < 8")
  case True
  then show ?thesis by (simp add: dispatchSystemExclusive_def)
next
  case False
  then have len: "8 \<le> length buffer" by simp
  have nowrap: "(unat (buffer ! 6) + (length buffer - 8)) mod 2 ^ 32 = unat (buffer ! 6) + (length buffer - 8)"
  proof -
    have "unat (buffer ! 6) < 256" using unsigned_less [of "buffer ! 6", where ?'a = nat] by simp
    with assms(1) len have "unat (buffer ! 6) + (length buffer - 8) < 2 ^ 32" by simp
    then show ?thesis by simp
  qed
  from assms(2) False show ?thesis
    unfolding dispatchSystemExclusive_long [OF len] nowrap by auto
qed

theorem malformed_frame_dropped_witness:
  "dispatchSystemExclusive False [0xf0, 0x00, 0x00, 0x66, 20, 18, 110, 0x41, 0x42, 0x43, 0xf7] begin_state
      = Inr ([], begin_state)
   \<and> dispatchSystemExclusive False [0xf0, 0x00, 0x00, 0x66, 20, 18, 0xf7] begin_state = Inr ([], begin_state)
   \<and> dispatchSystemExclusive False [0xf0, 0x00, 0x20, 0x66, 20, 18, 0, 0x41, 0xf7] begin_state
       = Inr ([], begin_state)
   \<and> dispatchSystemExclusive False [0xf0, 0x00, 0x00, 0x66, 22, 18, 0, 0x41, 0xf7] begin_state
       = Inr ([], begin_state)"
  using malformed_frame_dropped [of "[0xf0, 0x00, 0x00, 0x66, 20, 18, 110, 0x41, 0x42, 0x43, 0xf7]" False begin_state]
    malformed_frame_dropped [of "[0xf0, 0x00, 0x00, 0x66, 20, 18, 0xf7]" False begin_state]
    malformed_frame_dropped [of "[0xf0, 0x00, 0x20, 0x66, 20, 18, 0, 0x41, 0xf7]" False begin_state]
    malformed_frame_dropped [of "[0xf0, 0x00, 0x00, 0x66, 22, 18, 0, 0x41, 0xf7]" False begin_state]
  by simp

end
